theory Spec2Isabelle
  imports Main "HOL-Library.Word" "HOL-Library.List_Lexorder" "HOL-Library.Multiset"
begin

section \<open>Strings\<close>

text \<open>
  A Python \<open>str\<close> is a sequence of Unicode code points and \<open>len\<close> counts code points.
  A character is modelled by its code point, a string by the list of its code points;
  characters are ordered as Python orders them, by code point.
\<close>

type_synonym codepoint = nat
type_synonym pystr = "codepoint list"

definition str :: "string \<Rightarrow> pystr" where
  \<comment> \<open>An ASCII literal of the source, as code points.\<close>
  "str s = map of_char s"

section \<open>The corpus codec (\<open>prepare.py\<close>)\<close>

subsection \<open>Vocabulary\<close>

datatype 'k key_error = KeyError 'k

fun py_enumerate :: "int \<Rightarrow> 'a list \<Rightarrow> (int \<times> 'a) list" where
  \<comment> \<open>\<open>enumerate(xs, start)\<close>\<close>
  "py_enumerate start [] = []"
| "py_enumerate start (x # xs) = (start, x) # py_enumerate (start + 1) xs"

definition setitem :: "('k \<rightharpoonup> 'v) \<Rightarrow> 'k \<times> 'v \<Rightarrow> ('k \<rightharpoonup> 'v)" where
  \<comment> \<open>\<open>d[k] = v\<close>\<close>
  "setitem d kv = d(fst kv \<mapsto> snd kv)"

definition dict_of :: "('k \<times> 'v) list \<Rightarrow> ('k \<rightharpoonup> 'v)" where
  \<comment> \<open>A dict comprehension: the pairs are stored in order, a later one overwrites.\<close>
  "dict_of kvs = foldl setitem Map.empty kvs"

definition chars :: "pystr \<Rightarrow> codepoint list" where
  \<comment> \<open>\<open>chars = sorted(list(set(data)))\<close>\<close>
  "chars data = sorted_list_of_set (set data)"

definition vocab_size :: "pystr \<Rightarrow> nat" where
  \<comment> \<open>\<open>vocab_size = len(chars)\<close>\<close>
  "vocab_size data = length (chars data)"

definition stoi :: "pystr \<Rightarrow> (codepoint \<rightharpoonup> int)" where
  \<comment> \<open>\<open>stoi = { ch:i for i,ch in enumerate(chars) }\<close>\<close>
  "stoi data = dict_of (map (\<lambda>(i, ch). (ch, i)) (py_enumerate 0 (chars data)))"

definition itos :: "pystr \<Rightarrow> (int \<rightharpoonup> codepoint)" where
  \<comment> \<open>\<open>itos = { i:ch for i,ch in enumerate(chars) }\<close>\<close>
  "itos data = dict_of (py_enumerate 0 (chars data))"

subsection \<open>Encoder and decoder\<close>

fun subscript_each :: "('k \<rightharpoonup> 'v) \<Rightarrow> 'k list \<Rightarrow> 'k key_error + 'v list" where
  \<comment> \<open>\<open>[d[k] for k in ks]\<close>: the first key missing from \<open>d\<close> raises \<open>KeyError\<close>.\<close>
  "subscript_each d [] = Inr []"
| "subscript_each d (k # ks) =
     (case d k of
        None \<Rightarrow> Inl (KeyError k)
      | Some v \<Rightarrow> (case subscript_each d ks of Inl e \<Rightarrow> Inl e | Inr vs \<Rightarrow> Inr (v # vs)))"

definition encode :: "pystr \<Rightarrow> pystr \<Rightarrow> codepoint key_error + int list" where
  \<comment> \<open>\<open>encode(s) = [stoi[c] for c in s]\<close>, for the vocabulary of the corpus \<open>data\<close>\<close>
  "encode data s = subscript_each (stoi data) s"

definition decode :: "pystr \<Rightarrow> int list \<Rightarrow> int key_error + pystr" where
  \<comment> \<open>\<open>decode(l) = ''.join([itos[i] for i in l])\<close>: joining one-character strings
      gives the string of those characters.\<close>
  "decode data l = subscript_each (itos data) l"

subsection \<open>Whitespace\<close>

definition is_space :: "codepoint \<Rightarrow> bool" where
  \<comment> \<open>The characters \<open>str.strip()\<close> and \<open>str.split()\<close> treat as whitespace:
      U+0009..U+000D, U+001C..U+0020, U+0085, U+00A0, U+1680, U+2000..U+200A, U+2028,
      U+2029, U+202F, U+205F, U+3000.\<close>
  "is_space c \<longleftrightarrow>
     (9 \<le> c \<and> c \<le> 13) \<or> (28 \<le> c \<and> c \<le> 32) \<or> c = 133 \<or> c = 160 \<or> c = 5760 \<or>
     (8192 \<le> c \<and> c \<le> 8202) \<or> c = 8232 \<or> c = 8233 \<or> c = 8239 \<or> c = 8287 \<or> c = 12288"

definition lstrip :: "pystr \<Rightarrow> pystr" where
  "lstrip s = dropWhile is_space s"

definition rstrip :: "pystr \<Rightarrow> pystr" where
  "rstrip s = rev (dropWhile is_space (rev s))"

definition strip :: "pystr \<Rightarrow> pystr" where
  \<comment> \<open>\<open>s.strip()\<close>\<close>
  "strip s = rstrip (lstrip s)"

fun split_from :: "pystr \<Rightarrow> pystr \<Rightarrow> pystr list" where
  \<comment> \<open>\<open>cur\<close> is the word read so far.\<close>
  "split_from cur [] = (if cur = [] then [] else [cur])"
| "split_from cur (c # cs) =
     (if is_space c then (if cur = [] then [] else [cur]) @ split_from [] cs
      else split_from (cur @ [c]) cs)"

definition py_split :: "pystr \<Rightarrow> pystr list" where
  \<comment> \<open>\<open>s.split()\<close>: the maximal runs of non-whitespace characters\<close>
  "py_split s = split_from [] s"

subsection \<open>The 90/10 split\<close>

text \<open>
  The split point is \<open>int(n*0.9)\<close> with \<open>n = len(data)\<close>, a floating-point computation:
  Python converts the integer \<open>n\<close> to the nearest double, multiplies it by the double
  nearest to 0.9, which is \<open>8106479329266893 / 2^53\<close> (hexadecimal \<open>0x1.ccccccccccccdp-1\<close>),
  rounds the exact product to the nearest double, and \<open>int\<close> truncates the result.
  Both roundings are IEEE 754 round-to-nearest, ties to the even significand, of a
  significand of 53 bits. The product is a multiple of \<open>2^-53\<close> and so is its rounding;
  such a value is represented here by its numerator over \<open>2^53\<close>, a natural number.
  A length is below \<open>2^63\<close>, so no operation leaves the range of the doubles.
\<close>

fun bit_length :: "nat \<Rightarrow> nat" where
  \<comment> \<open>The number of binary digits of \<open>n\<close>, Python's \<open>n.bit_length()\<close>.\<close>
  "bit_length n = (if n = 0 then 0 else Suc (bit_length (n div 2)))"

declare bit_length.simps [simp del]

definition round_to_double :: "nat \<Rightarrow> nat" where
  \<comment> \<open>The nearest number with at most 53 significant bits, ties to even: the lowest
      \<open>e\<close> bits are rounded away.\<close>
  "round_to_double m =
     (let e = bit_length m - 53; q = m div 2 ^ e; r = m mod 2 ^ e
      in if 2 ^ e < 2 * r \<or> (2 * r = 2 ^ e \<and> odd q) then (q + 1) * 2 ^ e else q * 2 ^ e)"

definition split_index :: "nat \<Rightarrow> nat" where
  \<comment> \<open>\<open>int(n*0.9)\<close>\<close>
  "split_index n = round_to_double (round_to_double n * 8106479329266893) div 2 ^ 53"

definition train_data :: "pystr \<Rightarrow> pystr" where
  \<comment> \<open>\<open>train_data = data[:int(n*0.9)]\<close>\<close>
  "train_data data = take (split_index (length data)) data"

definition val_data :: "pystr \<Rightarrow> pystr" where
  \<comment> \<open>\<open>val_data = data[int(n*0.9):]\<close>\<close>
  "val_data data = drop (split_index (length data)) data"

subsection \<open>Serialisation as 16-bit unsigned integers\<close>

definition np_array_uint16 :: "int list \<Rightarrow> 16 word list" where
  \<comment> \<open>The array that \<open>np.array(ids, dtype=np.uint16)\<close> gives when it returns: each id is
      stored in 16 bits, reduced modulo \<open>2^16\<close>. For an id outside \<open>0..65535\<close> NumPy 1
      returns this array and NumPy 2 raises \<open>OverflowError\<close>; \<open>np_array\<close> below has both.\<close>
  "np_array_uint16 ids = map word_of_int ids"

subsection \<open>The sample encoding test of the summary\<close>

record encoding_test =
  original :: pystr
  encoded :: "int list"
  decoded :: pystr
  matches :: bool

definition test_text :: "pystr \<Rightarrow> pystr" where
  \<comment> \<open>\<open>test_text = data[:100].strip()\<close>\<close>
  "test_text data = strip (take 100 data)"

definition sample_encoding_test ::
    "pystr \<Rightarrow> (codepoint key_error + int key_error) + encoding_test" where
  \<comment> \<open>The lines written under \<open>SAMPLE ENCODING TEST\<close>; the summary shows the first 20
      tokens of \<open>test_encoded\<close>.\<close>
  "sample_encoding_test data =
     (case encode data (test_text data) of
        Inl e \<Rightarrow> Inl (Inl e)
      | Inr test_encoded \<Rightarrow>
          (case decode data test_encoded of
             Inl e \<Rightarrow> Inl (Inr e)
           | Inr test_decoded \<Rightarrow>
               Inr \<lparr>original = test_text data, encoded = take 20 test_encoded,
                    decoded = test_decoded, matches = (test_text data = test_decoded)\<rparr>))"

section \<open>Text formatting\<close>

definition nl :: pystr where
  \<comment> \<open>the newline character\<close>
  "nl = [10]"

definition bar :: "nat \<Rightarrow> pystr" where
  \<comment> \<open>\<open>'='*n\<close>\<close>
  "bar n = replicate n 61"

fun show_nat :: "nat \<Rightarrow> pystr" where
  \<comment> \<open>the decimal digits of a natural number\<close>
  "show_nat n = (if n < 10 then [48 + n] else show_nat (n div 10) @ [48 + n mod 10])"

definition show_int :: "int \<Rightarrow> pystr" where
  \<comment> \<open>\<open>str(i)\<close>\<close>
  "show_int i = (if i < 0 then 45 # show_nat (nat (- i)) else show_nat (nat i))"

fun show_grouped :: "nat \<Rightarrow> pystr" where
  \<comment> \<open>the format \<open>{n:,}\<close>: decimal digits in groups of three separated by commas\<close>
  "show_grouped n =
     (if n < 1000 then show_nat n
      else show_grouped (n div 1000) @ [44, 48 + n mod 1000 div 100, 48 + n mod 100 div 10,
             48 + n mod 10])"

definition show_2d :: "int \<Rightarrow> pystr" where
  \<comment> \<open>the format \<open>{i:2d}\<close>: padded with spaces on the left to two characters\<close>
  "show_2d i = (let d = show_int i in replicate (2 - length d) 32 @ d)"

section \<open>The consolidation component (\<open>combine_extracted_texts.py\<close>)\<close>

subsection \<open>The directory tree\<close>

text \<open>
  The scripts see the file system as it is when they start: a file that exists can be
  queried for its size, and reading it either gives its decoded text or raises (the file
  is not readable, is a directory, or is not valid UTF-8). Writing to an output file is
  taken to succeed.
\<close>

datatype exn = Exception (message: pystr)
  \<comment> \<open>an exception \<open>e\<close>, with the text \<open>str(e)\<close>\<close>

record text_file =
  st_size :: nat
  contents :: "exn + pystr"

record dir_item =
  item_name :: pystr
  is_dir :: bool
  artifact :: "text_file option"

text \<open>
  \<open>artifact\<close> is the file \<open>complete_extracted_text.txt\<close> inside the item, when it exists.
  A discovered document is a pair \<open>(dir_name, file_path)\<close>; the path is carried with the
  file it names.
\<close>

type_synonym document = "pystr \<times> pystr \<times> text_file"

text \<open>
  A path is written as \<open>pathlib\<close> prints it on a POSIX system: the parts are joined by
  single slashes, empty parts and parts \<open>.\<close> are dropped, an initial slash is kept (two
  initial slashes are kept as two, three or more as one), and the path with no part and
  no root is \<open>.\<close>.
\<close>

fun split_on :: "'a \<Rightarrow> 'a list \<Rightarrow> 'a list list" where
  \<comment> \<open>the pieces between the occurrences of the separator\<close>
  "split_on sep [] = [[]]"
| "split_on sep (c # cs) =
     (if c = sep then [] # split_on sep cs
      else (case split_on sep cs of p # ps \<Rightarrow> (c # p) # ps | [] \<Rightarrow> [[c]]))"

definition path_root :: "pystr \<Rightarrow> pystr" where
  "path_root s =
     (if take 2 s = str ''//'' \<and> take 3 s \<noteq> str ''///'' then str ''//''
      else if take 1 s = str ''/'' then str ''/''
      else [])"

definition path_parts :: "pystr \<Rightarrow> pystr list" where
  "path_parts s = filter (\<lambda>p. p \<noteq> [] \<and> p \<noteq> str ''.'') (split_on 47 s)"

fun join_parts :: "pystr list \<Rightarrow> pystr" where
  "join_parts [] = []"
| "join_parts [p] = p"
| "join_parts (p # ps) = p @ str ''/'' @ join_parts ps"

definition path_of :: "pystr \<Rightarrow> pystr \<Rightarrow> pystr" where
  \<comment> \<open>\<open>item / "complete_extracted_text.txt"\<close> for \<open>item = Path(base_dir) / name\<close>, as text;
      \<open>name\<close> is the name of an entry of the directory, a single part\<close>
  "path_of base_dir name =
     (let parts = path_parts base_dir @ [name, str ''complete_extracted_text.txt'']
      in path_root base_dir @ join_parts parts)"

fun scan_items :: "pystr \<Rightarrow> dir_item list \<Rightarrow> document list" where
  \<comment> \<open>the loop over \<open>base_path.iterdir()\<close>, in the order of the enumeration\<close>
  "scan_items base_dir [] = []"
| "scan_items base_dir (item # items) =
     (if is_dir item then
        (case artifact item of
           Some f \<Rightarrow> (item_name item, path_of base_dir (item_name item), f) # scan_items base_dir items
         | None \<Rightarrow> scan_items base_dir items)
      else scan_items base_dir items)"

definition find_extracted_text_files :: "pystr \<Rightarrow> dir_item list \<Rightarrow> document list" where
  \<comment> \<open>\<open>text_files.sort(key=lambda x: x[0])\<close>: a stable sort by directory name; strings
      compare lexicographically by code point.\<close>
  "find_extracted_text_files base_dir items = sort_key fst (scan_items base_dir items)"

subsection \<open>The consolidated file\<close>

text \<open>The output file is the sequence of the texts written to it, each kept with its kind.\<close>

datatype chunk =
    Header pystr nat
      \<comment> \<open>time of generation, total documents\<close>
  | Separator int pystr pystr nat
      \<comment> \<open>document index, directory name, source file, characters\<close>
  | Content pystr
  | Blank
  | Error_line pystr pystr
      \<comment> \<open>directory name, text of the exception\<close>
  | Footer nat nat pystr
      \<comment> \<open>documents processed, total characters, time of generation\<close>

definition render :: "chunk \<Rightarrow> pystr" where
  "render c =
     (case c of
        Header now n \<Rightarrow>
          nl @ bar 80 @ nl @ str ''CONSOLIDATED EXTRACTED TEXT'' @ nl @ bar 80 @ nl @
          str ''Generated: '' @ now @ nl @ str ''Source: Google Cloud Vision OCR'' @ nl @
          str ''Total documents: '' @ show_nat n @ nl @ bar 80 @ nl @ nl
      | Separator i dir_name file_path n \<Rightarrow>
          nl @ bar 80 @ nl @ str ''DOCUMENT '' @ show_int i @ str '': '' @ dir_name @ nl @
          bar 80 @ nl @ str ''Source File: '' @ file_path @ nl @
          str ''Characters: '' @ show_grouped n @ nl @ bar 80 @ nl @ nl
      | Content text \<Rightarrow> text
      | Blank \<Rightarrow> nl @ nl
      | Error_line dir_name e \<Rightarrow>
          [10060] @ str '' Error processing '' @ dir_name @ str '': '' @ e @ nl @ nl
      | Footer n total_chars now \<Rightarrow>
          nl @ bar 80 @ nl @ str ''CONSOLIDATION COMPLETE'' @ nl @ bar 80 @ nl @
          str ''Total documents processed: '' @ show_nat n @ nl @
          str ''Total characters: '' @ show_grouped total_chars @ nl @
          str ''Generated: '' @ now @ nl @ bar 80 @ nl)"

definition placeholder :: pystr where
  "placeholder = str ''[No text content found]''"

definition document_section :: "int \<Rightarrow> document \<Rightarrow> chunk list \<times> nat" where
  \<comment> \<open>The body of the loop for one document: what it writes, and what it adds to
      \<open>total_chars\<close>. When reading raises, the \<open>except\<close> branch writes the error line.\<close>
  "document_section i d =
     (case d of (dir_name, file_path, f) \<Rightarrow>
        (case contents f of
           Inl e \<Rightarrow> ([Error_line dir_name (message e)], 0)
         | Inr raw \<Rightarrow>
             (let content = strip raw;
                  content = (if content = [] then placeholder else content)
              in ([Separator i dir_name file_path (length content), Content content, Blank],
                  length content))))"

fun process_files :: "(int \<times> document) list \<Rightarrow> chunk list \<times> nat \<Rightarrow> chunk list \<times> nat" where
  \<comment> \<open>The loop \<open>for i, (dir_name, file_path) in enumerate(text_files, 1)\<close>; the state is
      what has been written and \<open>total_chars\<close>.\<close>
  "process_files [] state = state"
| "process_files ((i, d) # rest) (written, total_chars) =
     (let (section, n) = document_section i d
      in process_files rest (written @ section, total_chars + n))"

definition combine_text_files ::
    "pystr \<Rightarrow> pystr \<Rightarrow> document list \<Rightarrow> (chunk list \<times> nat) option" where
  \<comment> \<open>\<open>None\<close>: nothing is written and \<open>False\<close> is returned. Otherwise the file written and
      \<open>total_chars\<close>. \<open>now1\<close> and \<open>now2\<close> are the two readings of the clock.\<close>
  "combine_text_files now1 now2 text_files =
     (if text_files = [] then None
      else
        (let (written, total_chars) =
               process_files (py_enumerate 1 text_files) ([Header now1 (length text_files)], 0)
         in Some (written @ [Footer (length text_files) total_chars now2], total_chars)))"

definition consolidated_text :: "chunk list \<Rightarrow> pystr" where
  \<comment> \<open>the characters of the file\<close>
  "consolidated_text written = concat (map render written)"

subsection \<open>The summary report\<close>

datatype summary_line =
    Summary_head pystr pystr nat nat
      \<comment> \<open>time of generation, output file, total documents, total characters\<close>
  | Summary_doc int pystr pystr nat nat
      \<comment> \<open>index, directory name, file, size in bytes, characters\<close>
  | Summary_error int pystr pystr
      \<comment> \<open>index, directory name, text of the exception\<close>

definition render_summary :: "summary_line \<Rightarrow> pystr" where
  "render_summary l =
     (case l of
        Summary_head now output_file n total_chars \<Rightarrow>
          str ''CONSOLIDATION SUMMARY REPORT'' @ nl @ bar 50 @ nl @ nl @
          str ''Generated: '' @ now @ nl @ str ''Output file: '' @ output_file @ nl @
          str ''Total documents: '' @ show_nat n @ nl @
          str ''Total characters: '' @ show_grouped total_chars @ nl @ nl @
          str ''PROCESSED DOCUMENTS:'' @ nl @ replicate 30 45 @ nl
      | Summary_doc i dir_name file_path file_size char_count \<Rightarrow>
          show_2d i @ str ''. '' @ dir_name @ nl @
          str ''    File: '' @ file_path @ nl @
          str ''    Size: '' @ show_grouped file_size @ str '' bytes'' @ nl @
          str ''    Characters: '' @ show_grouped char_count @ nl @ nl
      | Summary_error i dir_name e \<Rightarrow>
          show_2d i @ str ''. '' @ dir_name @ str '' - ERROR: '' @ e @ nl @ nl)"

definition summary_entry :: "int \<times> document \<Rightarrow> summary_line" where
  \<comment> \<open>the body of the loop of \<open>generate_summary_report\<close>\<close>
  "summary_entry d =
     (case d of (i, dir_name, file_path, f) \<Rightarrow>
        (case contents f of
           Inl e \<Rightarrow> Summary_error i dir_name (message e)
         | Inr raw \<Rightarrow> Summary_doc i dir_name file_path (st_size f) (length raw)))"

definition generate_summary_report ::
    "pystr \<Rightarrow> document list \<Rightarrow> pystr \<Rightarrow> nat \<Rightarrow> summary_line list" where
  "generate_summary_report now text_files output_file total_chars =
     Summary_head now output_file (length text_files) total_chars #
     map summary_entry (py_enumerate 1 text_files)"

definition output_file_name :: pystr where
  "output_file_name = str ''ocr_google_vision_pdf/consolidated_extracted_text.txt''"

definition main ::
    "dir_item list \<Rightarrow> bool \<Rightarrow> pystr \<Rightarrow> pystr \<Rightarrow> pystr \<Rightarrow> (chunk list \<times> summary_line list) option" where
  \<comment> \<open>\<open>main()\<close> on the listing of \<open>ocr_google_vision_pdf\<close>; \<open>confirmed\<close> says that the run
      is automatic or the user answered \<open>y\<close>. The result is the two files written, if any.\<close>
  "main items confirmed now1 now2 now3 =
     (let text_files = find_extracted_text_files (str ''ocr_google_vision_pdf'') items
      in if text_files = [] then None
         else if \<not> confirmed then None
         else
           (case combine_text_files now1 now2 text_files of
              None \<Rightarrow> None
            | Some (written, total_chars) \<Rightarrow>
                Some (written,
                      generate_summary_report now3 text_files output_file_name total_chars)))"

subsection \<open>Notions used to state the properties\<close>

definition document_of :: "pystr \<Rightarrow> dir_item \<Rightarrow> document" where
  \<comment> \<open>the entry of \<open>text_files\<close> for a discovered subdirectory\<close>
  "document_of base_dir item =
     (item_name item, path_of base_dir (item_name item), the (artifact item))"

definition body :: "document list \<Rightarrow> chunk list" where
  \<comment> \<open>the sections of the documents, in order: what the loop writes\<close>
  "body text_files =
     concat (map (\<lambda>(i, d). fst (document_section i d)) (py_enumerate 1 text_files))"

definition example_file :: "string \<Rightarrow> text_file" where
  \<comment> \<open>a readable file with an ASCII text\<close>
  "example_file text = \<lparr>st_size = length text, contents = Inr (str text)\<rparr>"

definition example_dir :: "string \<Rightarrow> text_file \<Rightarrow> dir_item" where
  "example_dir name f = \<lparr>item_name = str name, is_dir = True, artifact = Some f\<rparr>"

definition example_listing :: "dir_item list" where
  \<comment> \<open>the three subdirectories of the example, enumerated as \<open>b_doc\<close>, \<open>a_doc\<close>, \<open>c_doc\<close>\<close>
  "example_listing =
     [example_dir ''b_doc'' (example_file []), example_dir ''a_doc'' (example_file '' a ''),
      example_dir ''c_doc'' (example_file ''c'')]"

definition example_documents :: "document list" where
  "example_documents =
     [(str ''a_doc'', str ''a_doc/complete_extracted_text.txt'', example_file '' a ''),
      (str ''b_doc'', str ''b_doc/complete_extracted_text.txt'', example_file [])]"

definition unreadable_file :: text_file where
  \<comment> \<open>a file that is not valid UTF-8: reading it raises \<open>UnicodeDecodeError\<close>\<close>
  "unreadable_file = \<lparr>st_size = 2, contents = Inl (Exception (str ''invalid start byte''))\<rparr>"

definition header_names :: "chunk list \<Rightarrow> pystr list" where
  \<comment> \<open>the directory names of the document header blocks of a file, in the order written\<close>
  "header_names written =
     concat (map (\<lambda>c. case c of Separator i dir_name file_path n \<Rightarrow> [dir_name] | _ \<Rightarrow> []) written)"

definition error_names :: "chunk list \<Rightarrow> pystr list" where
  \<comment> \<open>the directory names of the error lines of a file, in the order written\<close>
  "error_names written =
     concat (map (\<lambda>c. case c of Error_line dir_name e \<Rightarrow> [dir_name] | _ \<Rightarrow> []) written)"

definition discovered :: "dir_item \<Rightarrow> bool" where
  \<comment> \<open>a subdirectory that holds the combined-text artifact\<close>
  "discovered item \<longleftrightarrow> is_dir item \<and> artifact item \<noteq> None"

definition readable :: "text_file \<Rightarrow> bool" where
  "readable f \<longleftrightarrow> (case contents f of Inr raw \<Rightarrow> True | Inl e \<Rightarrow> False)"

definition readable_dirs :: "dir_item list \<Rightarrow> pystr set" where
  \<comment> \<open>the names of the discovered subdirectories whose artifact can be read\<close>
  "readable_dirs items =
     set (map item_name
       (filter (\<lambda>item. discovered item \<and> (case artifact item of Some f \<Rightarrow> readable f | None \<Rightarrow> False))
          items))"

definition unreadable_dirs :: "dir_item list \<Rightarrow> pystr set" where
  \<comment> \<open>the names of the discovered subdirectories whose artifact cannot be read\<close>
  "unreadable_dirs items =
     set (map item_name
       (filter (\<lambda>item. discovered item \<and> (case artifact item of Some f \<Rightarrow> \<not> readable f | None \<Rightarrow> False))
          items))"

section \<open>The script \<open>prepare.py\<close> as a whole\<close>

text \<open>
  The script runs from top to bottom and has no handler: an exception ends it there, and
  what the later lines would write is not written. It leaves when the input file does
  not exist (\<open>exit(1)\<close>), when reading the file raises, at the first report of the
  split, which divides by \<open>n = len(data)\<close> (\<open>len(train_data)/n*100\<close>), for the empty
  corpus, and at the conversion to 16-bit arrays when NumPy refuses an id that does not
  fit. That last step depends on the version of NumPy, which the repository does not fix:
  NumPy 1 reduces the id modulo \<open>2^16\<close>, NumPy 2 raises \<open>OverflowError\<close>; the version is a
  parameter. Printing, creating the output directory and writing the output files are
  taken to succeed. The percentages are floating-point numbers that are only printed and
  are left out.
\<close>

datatype numpy = NumPy1 | NumPy2

datatype script_error =
    SystemExit int
      \<comment> \<open>\<open>exit(1)\<close>: the input file is not there\<close>
  | Uncaught exn
      \<comment> \<open>reading the input file raised\<close>
  | ZeroDivisionError
  | OverflowError
  | Encode_KeyError "codepoint key_error"
  | Decode_KeyError "int key_error"

definition np_array :: "numpy \<Rightarrow> int list \<Rightarrow> script_error + 16 word list" where
  \<comment> \<open>\<open>np.array(ids, dtype=np.uint16)\<close> for either version of NumPy\<close>
  "np_array np ids =
     (if np = NumPy2 \<and> (\<exists>i \<in> set ids. i < 0 \<or> 65535 < i) then Inl OverflowError
      else Inr (np_array_uint16 ids))"

record prepared =
  train_bin :: "16 word list"
  val_bin :: "16 word list"
  meta_vocab_size :: nat
  meta_itos :: "int \<rightharpoonup> codepoint"
  meta_stoi :: "codepoint \<rightharpoonup> int"
  meta_total_chars :: nat
  meta_train_chars :: nat
  meta_val_chars :: nat
  summary_test :: encoding_test

definition prepare :: "numpy \<Rightarrow> text_file option \<Rightarrow> script_error + prepared" where
  \<comment> \<open>The run of the script; \<open>input\<close> is the file at \<open>input_file_path\<close>, when it exists.
      The result is what \<open>train.bin\<close>, \<open>val.bin\<close>, \<open>meta.pkl\<close> and the sample encoding test
      of \<open>prepare_summary.txt\<close> hold at the end.\<close>
  "prepare np input =
     (case input of
        None \<Rightarrow> Inl (SystemExit 1)
      | Some f \<Rightarrow>
          (case contents f of
             Inl e \<Rightarrow> Inl (Uncaught e)
           | Inr data \<Rightarrow>
               (let n = length data
                in if n = 0 then Inl ZeroDivisionError
                   else
                     (case encode data (train_data data) of
                        Inl e \<Rightarrow> Inl (Encode_KeyError e)
                      | Inr train_ids \<Rightarrow>
                     (case encode data (val_data data) of
                        Inl e \<Rightarrow> Inl (Encode_KeyError e)
                      | Inr val_ids \<Rightarrow>
                     (case np_array np train_ids of
                        Inl e \<Rightarrow> Inl e
                      | Inr train_array \<Rightarrow>
                     (case np_array np val_ids of
                        Inl e \<Rightarrow> Inl e
                      | Inr val_array \<Rightarrow>
                     (case sample_encoding_test data of
                        Inl (Inl e) \<Rightarrow> Inl (Encode_KeyError e)
                      | Inl (Inr e) \<Rightarrow> Inl (Decode_KeyError e)
                      | Inr test \<Rightarrow>
                          Inr \<lparr>train_bin = train_array, val_bin = val_array,
                               meta_vocab_size = vocab_size data, meta_itos = itos data,
                               meta_stoi = stoi data, meta_total_chars = n,
                               meta_train_chars = length (train_data data),
                               meta_val_chars = length (val_data data),
                               summary_test = test\<rparr>))))))))"

section \<open>The OCR extraction component (\<open>ocr_google_vision.py\<close>)\<close>

subsection \<open>The Vision API\<close>

text \<open>
  The service is outside the repository. A call with the bytes of an image either raises
  or returns a response; of a response the code reads the error message (empty when
  there is no error) and the annotations. The confidence values of the detailed mode are
  floating-point numbers that reach only the console, and are left out.
\<close>

type_synonym image_bytes = "nat list"

record text_response =
  error_message :: pystr
  text_annotations :: "pystr list"
    \<comment> \<open>the \<open>description\<close> of each annotation\<close>

type_synonym ocr_word = "pystr list"
  \<comment> \<open>the texts of the symbols of a word\<close>
type_synonym ocr_block = "ocr_word list list"
  \<comment> \<open>the paragraphs of a block, each a list of words\<close>

record full_text =
  full_text_text :: pystr
  full_text_pages :: "ocr_block list list"

record document_response =
  document_error_message :: pystr
  full_text_annotation :: "full_text option"

record client =
  text_detection :: "image_bytes \<Rightarrow> exn + text_response"
  document_text_detection :: "image_bytes \<Rightarrow> exn + document_response"

subsection \<open>Extraction from one image\<close>

definition extract_text_from_image :: "client option \<Rightarrow> image_bytes \<Rightarrow> pystr" where
  "extract_text_from_image cl bytes =
     (case cl of
        None \<Rightarrow> str ''ERROR: Vision API client not initialized''
      | Some c \<Rightarrow>
          (case text_detection c bytes of
             Inl e \<Rightarrow> str ''Error processing image: '' @ message e
           | Inr response \<Rightarrow>
               if error_message response \<noteq> [] then
                 str ''API Error: '' @ error_message response
               else
                 (case text_annotations response of
                    [] \<Rightarrow> str ''No text found in image''
                  | full_text # _ \<Rightarrow>
                      if full_text \<noteq> [] then full_text else str ''No text detected'')))"

record text_info =
  info_text :: pystr
  info_word_count :: nat
  info_blocks :: "(pystr \<times> nat) list"
    \<comment> \<open>the text and the word count of each block that has a word\<close>

definition block_words :: "ocr_block \<Rightarrow> ocr_word list" where
  "block_words b = concat b"

definition block_text :: "ocr_block \<Rightarrow> pystr" where
  \<comment> \<open>\<open>block_text += word_text + " "\<close> for each word\<close>
  "block_text b = concat (map (\<lambda>w. concat w @ str '' '') (block_words b))"

definition get_detailed_text_info :: "client option \<Rightarrow> image_bytes \<Rightarrow> text_info option" where
  \<comment> \<open>\<open>if not document: return None\<close>: an annotation that is missing or empty (no text and
      no page) counts as false.\<close>
  "get_detailed_text_info cl bytes =
     (case cl of
        None \<Rightarrow> None
      | Some c \<Rightarrow>
          (case document_text_detection c bytes of
             Inl e \<Rightarrow> None
           | Inr response \<Rightarrow>
               if document_error_message response \<noteq> [] then None
               else
                 (case full_text_annotation response of
                    None \<Rightarrow> None
                  | Some document \<Rightarrow>
                      if full_text_text document = [] \<and> full_text_pages document = [] then None
                      else
                      (let blocks = concat (full_text_pages document)
                       in Some \<lparr>info_text = full_text_text document,
                                info_word_count = sum_list (map (\<lambda>b. length (block_words b)) blocks),
                                info_blocks =
                                  map (\<lambda>b. (strip (block_text b), length (block_words b)))
                                    (filter (\<lambda>b. 0 < length (block_words b)) blocks)\<rparr>))))"

subsection \<open>Processing a document\<close>

definition page_result :: "client option \<Rightarrow> bool \<Rightarrow> image_bytes \<Rightarrow> pystr \<times> nat" where
  \<comment> \<open>\<open>text\<close> and \<open>word_count\<close> of one page, in the detailed or the standard mode\<close>
  "page_result cl detailed bytes =
     (if detailed then
        (case get_detailed_text_info cl bytes of
           Some info \<Rightarrow> (info_text info, info_word_count info)
         | None \<Rightarrow> (str ''Error processing page'', 0))
      else
        (let text = extract_text_from_image cl bytes
         in (text, if text \<noteq> [] then length (py_split text) else 0)))"

definition or_no_text :: "pystr \<Rightarrow> pystr" where
  \<comment> \<open>\<open>text or "No text detected"\<close>\<close>
  "or_no_text text = (if text \<noteq> [] then text else str ''No text detected'')"

definition page_header :: "int \<Rightarrow> pystr" where
  "page_header i = bar 60 @ nl @ str ''PAGE '' @ show_int i @ nl @ bar 60 @ nl"

record page_output =
  page_number :: int
  page_file :: pystr
    \<comment> \<open>what is written to \<open>page_NNN.txt\<close>\<close>
  page_text :: pystr
    \<comment> \<open>the page's part of the combined text\<close>
  word_count :: nat

definition process_page :: "client option \<Rightarrow> bool \<Rightarrow> int \<Rightarrow> image_bytes \<Rightarrow> page_output" where
  \<comment> \<open>the body of the loop for page \<open>i\<close>, once the image is encoded\<close>
  "process_page cl detailed i bytes =
     (let (text, words) = page_result cl detailed bytes
      in \<lparr>page_number = i, page_file = or_no_text text,
           page_text = page_header i @ or_no_text text @ nl @ nl, word_count = words\<rparr>)"

fun process_pages ::
    "client option \<Rightarrow> bool \<Rightarrow> ('img \<Rightarrow> exn + image_bytes) \<Rightarrow> (int \<times> 'img) list \<Rightarrow>
     page_output list \<times> exn option" where
  \<comment> \<open>The loop \<open>for i, page in enumerate(pages, 1)\<close>. \<open>to_bytes\<close> is \<open>image_to_bytes\<close>, the
      encoding of the page image, which is called outside any \<open>try\<close>: when it raises, the
      loop ends there with the pages written so far.\<close>
  "process_pages cl detailed to_bytes [] = ([], None)"
| "process_pages cl detailed to_bytes ((i, page) # rest) =
     (case to_bytes page of
        Inl e \<Rightarrow> ([], Some e)
      | Inr bytes \<Rightarrow>
          (let out = process_page cl detailed i bytes;
               (outs, raised) = process_pages cl detailed to_bytes rest
           in (out # outs, raised)))"

datatype pdf_result =
    Returned_False
      \<comment> \<open>no client, or no page images: nothing is processed\<close>
  | Raised exn "page_output list"
      \<comment> \<open>an exception left \<open>process_pdf\<close>, after these pages were written\<close>
  | Returned_True "page_output list" pystr nat nat
      \<comment> \<open>the pages, the combined text, the total of words, the API calls made\<close>

definition process_pdf ::
    "client option \<Rightarrow> (exn + 'img list) \<Rightarrow> ('img \<Rightarrow> exn + image_bytes) \<Rightarrow> bool \<Rightarrow> pdf_result" where
  \<comment> \<open>\<open>converted\<close> is the outcome of \<open>convert_from_path\<close> on the PDF; \<open>convert_pdf_to_images\<close>
      turns an exception into the empty list.\<close>
  "process_pdf cl converted to_bytes detailed =
     (if cl = None then Returned_False
      else
        (let pages = (case converted of Inl e \<Rightarrow> [] | Inr ps \<Rightarrow> ps)
         in if pages = [] then Returned_False
            else
              (case process_pages cl detailed to_bytes (py_enumerate 1 pages) of
                 (outs, Some e) \<Rightarrow> Raised e outs
               | (outs, None) \<Rightarrow>
                   Returned_True outs (concat (map page_text outs))
                     (sum_list (map word_count outs)) (length outs))))"

subsection \<open>Notions used to state the properties\<close>

definition detailed_failure :: "client \<Rightarrow> image_bytes \<Rightarrow> bool" where
  \<comment> \<open>the detailed call for an image raises, reports an error or returns no annotation\<close>
  "detailed_failure c bytes \<longleftrightarrow>
     (case document_text_detection c bytes of
        Inl e \<Rightarrow> True
      | Inr response \<Rightarrow>
          document_error_message response \<noteq> [] \<or> full_text_annotation response = None)"

definition standard_error_text :: "client \<Rightarrow> image_bytes \<Rightarrow> pystr option" where
  \<comment> \<open>when the standard call for an image raises or reports an error: the text that
      \<open>extract_text_from_image\<close> returns for it\<close>
  "standard_error_text c bytes =
     (case text_detection c bytes of
        Inl e \<Rightarrow> Some (str ''Error processing image: '' @ message e)
      | Inr response \<Rightarrow>
          if error_message response \<noteq> [] then Some (str ''API Error: '' @ error_message response)
          else None)"

definition encodes :: "('img \<Rightarrow> exn + image_bytes) \<Rightarrow> 'img \<Rightarrow> bool" where
  \<comment> \<open>\<open>image_to_bytes\<close> returns for this page image\<close>
  "encodes to_bytes page \<longleftrightarrow> (case to_bytes page of Inr bytes \<Rightarrow> True | Inl e \<Rightarrow> False)"

definition failing_client :: client where
  \<comment> \<open>a service whose every call raises\<close>
  "failing_client =
     \<lparr>text_detection = (\<lambda>bytes. Inl (Exception (str ''boom''))),
      document_text_detection = (\<lambda>bytes. Inl (Exception (str ''boom'')))\<rparr>"

definition flaky_client :: client where
  \<comment> \<open>a service that raises for the image \<open>[1]\<close> and reads \<open>hello world\<close> in any other\<close>
  "flaky_client =
     \<lparr>text_detection =
        (\<lambda>bytes. if bytes = [1] then Inl (Exception (str ''boom''))
           else Inr \<lparr>error_message = [], text_annotations = [str ''hello world'']\<rparr>),
      document_text_detection =
        (\<lambda>bytes. if bytes = [1] then Inl (Exception (str ''boom''))
           else Inr \<lparr>document_error_message = [],
                     full_text_annotation =
                       Some \<lparr>full_text_text = str ''hello world'',
                             full_text_pages = [[[[[str ''hello''], [str ''world'']]]]]\<rparr>\<rparr>)\<rparr>"

definition plain_bytes :: "image_bytes \<Rightarrow> exn + image_bytes" where
  \<comment> \<open>an encoding that always succeeds, for images given as their bytes\<close>
  "plain_bytes page = Inr page"

section \<open>Properties of the vocabulary\<close>

lemma chars_code: "chars data = sort (remdups data)"
  by (simp add: chars_def sorted_list_of_set_sort_remdups)

lemma set_chars: "set (chars data) = set data"
  by (simp add: chars_def)

lemma distinct_chars: "distinct (chars data)"
  by (simp add: chars_def)

lemma sorted_chars: "sorted (chars data)"
  by (simp add: chars_def)

lemma vocab_size_card: "vocab_size data = card (set data)"
  by (simp add: vocab_size_def chars_def)

lemma fold_stoi_notin:
  "c \<notin> set xs \<Longrightarrow>
   foldl setitem m (map (\<lambda>(i, ch). (ch, i)) (py_enumerate n xs)) c = m c"
  by (induction xs arbitrary: m n) (auto simp: setitem_def)

lemma fold_stoi_nth:
  "distinct xs \<Longrightarrow> i < length xs \<Longrightarrow>
   foldl setitem m (map (\<lambda>(i, ch). (ch, i)) (py_enumerate n xs)) (xs ! i)
     = Some (n + int i)"
proof (induction xs arbitrary: m n i)
  case Nil
  then show ?case by simp
next
  case (Cons x xs)
  show ?case
  proof (cases i)
    case 0
    from Cons.prems have notin: "x \<notin> set xs" by simp
    have "foldl setitem m (map (\<lambda>(i, ch). (ch, i)) (py_enumerate n (x # xs))) ((x # xs) ! i)
        = foldl setitem (setitem m (x, n)) (map (\<lambda>(i, ch). (ch, i)) (py_enumerate (n + 1) xs)) x"
      using 0 by simp
    also have "\<dots> = setitem m (x, n) x"
      using notin by (rule fold_stoi_notin)
    also have "\<dots> = Some (n + int i)"
      using 0 by (simp add: setitem_def)
    finally show ?thesis .
  next
    case (Suc j)
    with Cons.prems have "j < length xs" "distinct xs" by simp_all
    from Cons.IH [OF this(2) this(1), of "setitem m (x, n)" "n + 1"] Suc
    show ?thesis by (simp add: add.assoc)
  qed
qed

lemma fold_itos_notin:
  "k < n \<or> n + int (length xs) \<le> k \<Longrightarrow>
   foldl setitem m (py_enumerate n xs) k = m k"
  by (induction xs arbitrary: m n) (auto simp: setitem_def)

lemma fold_itos_nth:
  "i < length xs \<Longrightarrow>
   foldl setitem m (py_enumerate n xs) (n + int i)
     = Some (xs ! i)"
proof (induction xs arbitrary: m n i)
  case Nil
  then show ?case by simp
next
  case (Cons x xs)
  show ?case
  proof (cases i)
    case 0
    have outside: "n < n + 1 \<or> n + 1 + int (length xs) \<le> n" by simp
    have "foldl setitem m (py_enumerate n (x # xs)) (n + int i)
        = foldl setitem (setitem m (n, x)) (py_enumerate (n + 1) xs) n"
      using 0 by simp
    also have "\<dots> = setitem m (n, x) n"
      using outside by (rule fold_itos_notin)
    also have "\<dots> = Some ((x # xs) ! i)"
      using 0 by (simp add: setitem_def)
    finally show ?thesis .
  next
    case (Suc j)
    with Cons.prems have "j < length xs" by simp
    from Cons.IH [OF this, of "setitem m (n, x)" "n + 1"] Suc
    show ?thesis by (simp add: add.assoc)
  qed
qed

lemma stoi_nth: "i < vocab_size data \<Longrightarrow> stoi data (chars data ! i) = Some (int i)"
  using fold_stoi_nth [of "chars data" i Map.empty 0]
  by (simp add: stoi_def dict_of_def vocab_size_def distinct_chars)

lemma stoi_notin: "c \<notin> set data \<Longrightarrow> stoi data c = None"
  using fold_stoi_notin [of c "chars data" Map.empty 0]
  by (simp add: stoi_def dict_of_def set_chars)

lemma itos_nth: "i < vocab_size data \<Longrightarrow> itos data (int i) = Some (chars data ! i)"
  using fold_itos_nth [of i "chars data" Map.empty 0]
  by (simp add: itos_def dict_of_def vocab_size_def)

lemma itos_outside: "k < 0 \<or> int (vocab_size data) \<le> k \<Longrightarrow> itos data k = None"
  using fold_itos_notin [of k 0 "chars data" Map.empty]
  by (simp add: itos_def dict_of_def vocab_size_def)

lemma stoi_in:
  assumes "c \<in> set data"
  obtains i where "i < vocab_size data" "chars data ! i = c" "stoi data c = Some (int i)"
proof -
  from assms have "c \<in> set (chars data)" by (simp add: set_chars)
  then obtain i where "i < length (chars data)" "chars data ! i = c"
    by (auto simp: in_set_conv_nth)
  then show ?thesis using that stoi_nth [of i data] by (simp add: vocab_size_def)
qed

lemma dom_stoi: "dom (stoi data) = set data"
proof
  show "dom (stoi data) \<subseteq> set data"
    using stoi_notin by fastforce
  show "set data \<subseteq> dom (stoi data)"
    by (auto elim: stoi_in)
qed

lemma sorted_distinct_rank:
  assumes "sorted xs" "distinct xs" "i < length xs"
  shows "card {c \<in> set xs. c < xs ! i} = i"
proof -
  have "{c \<in> set xs. c < xs ! i} = set (take i xs)"
  proof (intro set_eqI iffI)
    fix c assume "c \<in> {c \<in> set xs. c < xs ! i}"
    then obtain j where j: "j < length xs" "xs ! j = c" "c < xs ! i"
      by (auto simp: in_set_conv_nth)
    have "j < i"
    proof (rule ccontr)
      assume "\<not> j < i"
      then have "i \<le> j" by simp
      with assms(1) j(1) have "xs ! i \<le> xs ! j" by (simp add: sorted_nth_mono)
      with j show False by simp
    qed
    with j assms(3) show "c \<in> set (take i xs)"
      by (auto simp: in_set_conv_nth)
  next
    fix c assume "c \<in> set (take i xs)"
    then obtain j where j: "j < i" "xs ! j = c"
      using assms(3) by (auto simp: in_set_conv_nth)
    from sorted_nth_mono [OF assms(1), of j i] j(1) assms(3)
    have "xs ! j \<le> xs ! i" by simp
    moreover have "j < length xs" using j(1) assms(3) by simp
    from nth_eq_iff_index_eq [OF assms(2) this assms(3)] j(1)
    have "xs ! j \<noteq> xs ! i" by simp
    ultimately show "c \<in> {c \<in> set xs. c < xs ! i}"
      using j assms(3) by auto
  qed
  moreover have "card (set (take i xs)) = i"
    using assms(2,3) by (simp add: distinct_card)
  ultimately show ?thesis by simp
qed

lemma stoi_rank:
  assumes "c \<in> set data"
  shows "stoi data c = Some (int (card {d \<in> set data. d < c}))"
proof -
  from assms obtain i where i: "i < vocab_size data" "chars data ! i = c"
      "stoi data c = Some (int i)"
    by (rule stoi_in)
  from sorted_distinct_rank [OF sorted_chars distinct_chars, of i data] i
  have "card {d \<in> set data. d < c} = i" by (simp add: vocab_size_def set_chars)
  with i show ?thesis by simp
qed

section \<open>The codec inverts itself on its vocabulary\<close>

lemma subscript_each_Inr:
  "(\<And>k. k \<in> set ks \<Longrightarrow> \<exists>v. d k = Some v \<and> P k v) \<Longrightarrow>
   \<exists>vs. subscript_each d ks = Inr vs \<and> list_all2 P ks vs"
proof (induction ks)
  case Nil
  show ?case by simp
next
  case (Cons k ks)
  from Cons.prems [of k] obtain v where v: "d k = Some v" "P k v" by auto
  from Cons.IH Cons.prems obtain vs where vs: "subscript_each d ks = Inr vs" "list_all2 P ks vs"
    by auto
  from v vs show ?case by simp
qed

lemma subscript_each_inverse:
  "list_all2 (\<lambda>k v. d' v = Some k) ks vs \<Longrightarrow> subscript_each d' vs = Inr ks"
  by (induction ks vs rule: list_all2_induct) simp_all

lemma subscript_each_Inl:
  "\<exists>k \<in> set ks. d k = None \<Longrightarrow>
   \<exists>k. k \<in> set ks \<and> d k = None \<and> subscript_each d ks = Inl (KeyError k)"
proof (induction ks)
  case Nil
  then show ?case by simp
next
  case (Cons k ks)
  show ?case
  proof (cases "d k")
    case None
    then show ?thesis by auto
  next
    case (Some v)
    with Cons.prems have "\<exists>k \<in> set ks. d k = None" by auto
    from Cons.IH [OF this] obtain k' where "k' \<in> set ks" "d k' = None"
        "subscript_each d ks = Inl (KeyError k')" by blast
    with Some show ?thesis by auto
  qed
qed

lemma encode_Inr:
  assumes "set s \<subseteq> set data"
  shows "\<exists>ids. encode data s = Inr ids \<and>
    list_all2 (\<lambda>c i. 0 \<le> i \<and> i < int (vocab_size data) \<and> itos data i = Some c) s ids"
  unfolding encode_def
proof (rule subscript_each_Inr)
  fix c assume "c \<in> set s"
  with assms have "c \<in> set data" by auto
  then obtain i where "i < vocab_size data" "chars data ! i = c" "stoi data c = Some (int i)"
    by (rule stoi_in)
  with itos_nth [of i data]
  show "\<exists>v. stoi data c = Some v \<and> 0 \<le> v \<and> v < int (vocab_size data) \<and> itos data v = Some c"
    by simp
qed

lemma roundtrip_on_vocabulary:
  assumes "set s \<subseteq> set data"
  shows "\<exists>ids. encode data s = Inr ids \<and> decode data ids = Inr s"
proof -
  from encode_Inr [OF assms] obtain ids where ids: "encode data s = Inr ids"
    "list_all2 (\<lambda>c i. 0 \<le> i \<and> i < int (vocab_size data) \<and> itos data i = Some c) s ids"
    by blast
  from ids(2) have "list_all2 (\<lambda>c i. itos data i = Some c) s ids"
    by (rule list_all2_mono) simp
  then have "decode data ids = Inr s"
    unfolding decode_def by (rule subscript_each_inverse)
  with ids(1) show ?thesis by blast
qed

text \<open>The example of the specification: the corpus \<open>aabc\<close>.\<close>

lemma example_vocabulary:
  "chars (str ''aabc'') = str ''abc'' \<and> vocab_size (str ''aabc'') = 3"
  by (simp add: vocab_size_def chars_code str_def)

lemma example_encode: "encode (str ''aabc'') (str ''aabc'') = Inr [0, 0, 1, 2]"
  by (simp add: encode_def stoi_def chars_code dict_of_def setitem_def str_def)

lemma example_decode: "decode (str ''aabc'') [0, 0, 1, 2] = Inr (str ''aabc'')"
  by (simp add: decode_def itos_def chars_code dict_of_def setitem_def str_def)

text \<open>
  Claim C1. For every string \<open>s\<close> all of whose characters occur in the corpus \<open>data\<close>
  from which the vocabulary was derived, encoding succeeds and decoding the result gives
  \<open>s\<close> back: \<open>decode(encode(s)) == s\<close>.
\<close>

theorem decode_encode_roundtrip:
  assumes "set s \<subseteq> set data"
  shows "\<exists>ids. encode data s = Inr ids \<and> decode data ids = Inr s"
  using assms by (rule roundtrip_on_vocabulary)

theorem decode_encode_roundtrip_witness:
  "set (str ''aab'') \<subseteq> set (str ''aabc'') \<and>
   (\<exists>ids. encode (str ''aabc'') (str ''aab'') = Inr ids \<and>
          decode (str ''aabc'') ids = Inr (str ''aab''))"
proof -
  have h: "set (str ''aab'') \<subseteq> set (str ''aabc'')" by (simp add: str_def)
  from h decode_encode_roundtrip [OF h] show ?thesis by blast
qed

text \<open>
  Claim C2. For every corpus, the size of the vocabulary is the number of distinct
  characters of the corpus, the keys of \<open>stoi\<close> are exactly the characters of the corpus,
  and the index of a character is its rank among them in ascending order of code point:
  the number of distinct characters of the corpus below it.
\<close>

theorem vocabulary_rank:
  "vocab_size data = card (set data) \<and> dom (stoi data) = set data \<and>
   (\<forall>c \<in> set data. stoi data c = Some (int (card {d \<in> set data. d < c})))"
  using vocab_size_card dom_stoi stoi_rank by blast

theorem vocabulary_rank_witness:
  "vocab_size (str ''aabc'') = 3 \<and> dom (stoi (str ''aabc'')) = set (str ''abc'') \<and>
   stoi (str ''aabc'') (of_char CHR ''b'') = Some 1"
proof -
  have "{d \<in> set (str ''aabc''). d < of_char CHR ''b''} = {of_char CHR ''a''}"
    by (auto simp: str_def)
  with vocabulary_rank [of "str ''aabc''"] show ?thesis
    by (simp add: str_def)
qed

text \<open>
  Claim C4. For every string with a character that is absent from the vocabulary,
  \<open>encode\<close> raises \<open>KeyError\<close> for such a character: no list of indices is returned,
  and no default index stands in for the unknown character.
\<close>

theorem encode_unknown_raises:
  assumes "\<not> set s \<subseteq> set data"
  shows "\<exists>c. c \<in> set s \<and> c \<notin> set data \<and> encode data s = Inl (KeyError c)"
proof -
  from assms obtain c where "c \<in> set s" "c \<notin> set data" by auto
  then have "\<exists>k \<in> set s. stoi data k = None" using stoi_notin by blast
  from subscript_each_Inl [OF this] obtain k where k: "k \<in> set s" "stoi data k = None"
      "encode data s = Inl (KeyError k)"
    unfolding encode_def by blast
  from k(2) dom_stoi [of data] have "k \<notin> set data" by auto
  with k show ?thesis by blast
qed

theorem encode_unknown_raises_witness:
  "\<not> set (str ''abz'') \<subseteq> set (str ''aabc'') \<and>
   (\<exists>c. c \<in> set (str ''abz'') \<and> c \<notin> set (str ''aabc'') \<and>
        encode (str ''aabc'') (str ''abz'') = Inl (KeyError c))"
proof -
  have h: "\<not> set (str ''abz'') \<subseteq> set (str ''aabc'')" by (simp add: str_def)
  from h encode_unknown_raises [OF h] show ?thesis by blast
qed

lemma encode_fits_uint16:
  assumes "set s \<subseteq> set data"
  shows "\<exists>ids. encode data s = Inr ids \<and>
     (\<forall>i \<in> set ids. 0 \<le> i \<and> i < int (vocab_size data)) \<and>
     (vocab_size data \<le> 65536 \<longrightarrow> map uint (np_array_uint16 ids) = ids)"
proof -
  from encode_Inr [OF assms] obtain ids where ids: "encode data s = Inr ids"
    "list_all2 (\<lambda>c i. 0 \<le> i \<and> i < int (vocab_size data) \<and> itos data i = Some c) s ids"
    by blast
  have range: "\<forall>i \<in> set ids. 0 \<le> i \<and> i < int (vocab_size data)"
  proof
    fix i assume "i \<in> set ids"
    with ids(2) show "0 \<le> i \<and> i < int (vocab_size data)"
      by (auto simp: list_all2_conv_all_nth in_set_conv_nth)
  qed
  have "map uint (np_array_uint16 ids) = ids" if small: "vocab_size data \<le> 65536"
  proof -
    have "uint (word_of_int i :: 16 word) = i" if "i \<in> set ids" for i
    proof -
      from range that small have "0 \<le> i" "i < 65536" by auto
      then show ?thesis by (simp add: uint_word_of_int take_bit_int_eq_self)
    qed
    then show ?thesis
      by (simp add: np_array_uint16_def map_idI)
  qed
  with ids(1) range show ?thesis by blast
qed

text \<open>
  The two arrays written to \<open>train.bin\<close> and \<open>val.bin\<close> are instances: both parts of the
  corpus are encoded without an error, and with at most 65536 distinct characters the
  16-bit arrays hold the ids unchanged.
\<close>

lemma train_val_fit_uint16:
  assumes "vocab_size data \<le> 65536"
  shows "\<exists>train_ids val_ids.
     encode data (train_data data) = Inr train_ids \<and>
     encode data (val_data data) = Inr val_ids \<and>
     map uint (np_array_uint16 train_ids) = train_ids \<and>
     map uint (np_array_uint16 val_ids) = val_ids"
proof -
  have "set (train_data data) \<subseteq> set data"
    unfolding train_data_def by (rule set_take_subset)
  from encode_fits_uint16 [OF this] assms obtain train_ids where
    "encode data (train_data data) = Inr train_ids"
    "map uint (np_array_uint16 train_ids) = train_ids"
    by blast
  moreover have "set (val_data data) \<subseteq> set data"
    unfolding val_data_def by (rule set_drop_subset)
  from encode_fits_uint16 [OF this] assms obtain val_ids where
    "encode data (val_data data) = Inr val_ids"
    "map uint (np_array_uint16 val_ids) = val_ids"
    by blast
  ultimately show ?thesis by blast
qed

text \<open>
  Claim C9. For every string over the vocabulary, every integer that \<open>encode\<close> produces
  lies in \<open>[0, vocab_size)\<close>; so, whenever \<open>vocab_size \<le> 65536\<close>, storing the ids as
  16-bit unsigned integers keeps the value of every token.
\<close>

theorem encode_ids_fit_uint16:
  assumes "set s \<subseteq> set data"
  shows "\<exists>ids. encode data s = Inr ids \<and>
     (\<forall>i \<in> set ids. 0 \<le> i \<and> i < int (vocab_size data)) \<and>
     (vocab_size data \<le> 65536 \<longrightarrow> map uint (np_array_uint16 ids) = ids)"
  using assms by (rule encode_fits_uint16)

theorem encode_ids_fit_uint16_witness:
  "set (str ''cab'') \<subseteq> set (str ''aabc'') \<and> vocab_size (str ''aabc'') \<le> 65536 \<and>
   (\<exists>ids. encode (str ''aabc'') (str ''cab'') = Inr ids \<and>
          list_all (\<lambda>i. 0 \<le> i \<and> i < 3) ids \<and> map uint (np_array_uint16 ids) = ids)"
proof -
  have h: "set (str ''cab'') \<subseteq> set (str ''aabc'')" by (simp add: str_def)
  have v: "vocab_size (str ''aabc'') = 3" by (simp add: vocab_size_def chars_code str_def)
  from encode_ids_fit_uint16 [OF h] v h show ?thesis
    by (auto simp: list_all_iff)
qed

section \<open>The split point\<close>

lemma bit_length_0: "bit_length 0 = 0"
  by (simp add: bit_length.simps)

lemma bit_length_Suc_0: "bit_length (Suc 0) = Suc 0"
  by (simp add: bit_length.simps)

lemma bit_length_numeral: "bit_length (numeral k) = Suc (bit_length (numeral k div 2))"
  by (subst bit_length.simps) simp

lemmas bit_length_eval = bit_length_0 bit_length_Suc_0 bit_length_numeral

lemma bit_length_upper: "m < 2 ^ bit_length m"
proof (induction m rule: bit_length.induct)
  case (1 n)
  show ?case
  proof (cases "n = 0")
    case True
    then show ?thesis by simp
  next
    case False
    with 1 have "n div 2 < 2 ^ bit_length (n div 2)" by simp
    then have "n < 2 * 2 ^ bit_length (n div 2)" by linarith
    with False show ?thesis by (subst bit_length.simps) simp
  qed
qed

lemma bit_length_lower: "0 < m \<Longrightarrow> 2 ^ (bit_length m - 1) \<le> m"
proof (induction m rule: bit_length.induct)
  case (1 n)
  show ?case
  proof (cases "n div 2 = 0")
    case True
    with 1(2) have "n = 1" by linarith
    then show ?thesis by (simp add: bit_length_eval)
  next
    case False
    with 1 have IH: "2 ^ (bit_length (n div 2) - 1) \<le> n div 2" by simp
    from False have pos: "0 < bit_length (n div 2)"
      by (subst bit_length.simps) simp
    have "bit_length n = Suc (bit_length (n div 2))"
      using 1(2) by (subst bit_length.simps) simp
    then have "(2::nat) ^ (bit_length n - 1) = 2 * 2 ^ (bit_length (n div 2) - 1)"
      using pos by (cases "bit_length (n div 2)") simp_all
    with IH show ?thesis by linarith
  qed
qed

lemma bit_length_le: "m < 2 ^ k \<Longrightarrow> bit_length m \<le> k"
proof (rule ccontr)
  assume less: "m < 2 ^ k" and "\<not> bit_length m \<le> k"
  then have k: "k \<le> bit_length m - 1" and "0 < m"
    by (auto simp: bit_length_0 intro: Nat.gr0I)
  from bit_length_lower [OF \<open>0 < m\<close>] have "2 ^ (bit_length m - 1) \<le> m" .
  moreover from k have "(2::nat) ^ k \<le> 2 ^ (bit_length m - 1)"
    by (rule power_increasing) simp
  ultimately show False using less by linarith
qed

lemma round_to_double_exact: "m < 2 ^ 53 \<Longrightarrow> round_to_double m = m"
  using bit_length_le [of m 53] by (simp add: round_to_double_def)

text \<open>What is rounded away is at most half a unit of the last place kept.\<close>

lemma round_to_double_upper:
  "2 * round_to_double m \<le> 2 * m + 2 ^ (bit_length m - 53)"
proof -
  define e where "e = bit_length m - 53"
  define q where "q = m div 2 ^ e"
  define r where "r = m mod 2 ^ e"
  have m: "m = q * 2 ^ e + r"
    unfolding q_def r_def by (rule div_mult_mod_eq [symmetric])
  have r: "r < 2 ^ e" by (simp add: r_def)
  have "round_to_double m = (if 2 ^ e < 2 * r \<or> (2 * r = 2 ^ e \<and> odd q) then (q + 1) * 2 ^ e else q * 2 ^ e)"
    by (simp add: round_to_double_def Let_def e_def q_def r_def)
  then show ?thesis
    unfolding e_def [symmetric] using m r by (auto simp: algebra_simps)
qed

lemma round_to_double_lower:
  assumes "a * 2 ^ (bit_length m - 53) \<le> m"
  shows "a * 2 ^ (bit_length m - 53) \<le> round_to_double m"
proof -
  define e where "e = bit_length m - 53"
  define q where "q = m div 2 ^ e"
  from assms have "a \<le> q"
    unfolding q_def e_def by (simp add: less_eq_div_iff_mult_less_eq)
  then have "a * 2 ^ e \<le> q * 2 ^ e" by simp
  moreover have "q * 2 ^ e \<le> round_to_double m"
    by (simp add: round_to_double_def Let_def e_def q_def)
  ultimately show ?thesis unfolding e_def by linarith
qed

lemma split_index_floor_general:
  assumes "n \<le> 1250999896491804"
  shows "split_index n = 9 * n div 10"
proof -
  define P where "P = n * 8106479329266893"
  define e where "e = bit_length P - 53"
  define k where "k = 9 * n div 10"
  from assms have "round_to_double n = n"
    by (intro round_to_double_exact) simp
  then have index: "split_index n = round_to_double P div 2 ^ 53"
    by (simp add: split_index_def P_def)
  have k: "10 * k \<le> 9 * n" "9 * n < 10 * k + 10"
    unfolding k_def by simp_all
  \<comment> \<open>the product has at most 103 bits, so at most 50 are rounded away\<close>
  from assms have "P < 2 ^ 103" unfolding P_def by simp
  then have "bit_length P \<le> 103" by (rule bit_length_le)
  then have e50: "e \<le> 50" unfolding e_def by simp
  then have "(2::nat) ^ e \<le> 2 ^ 50" by (intro power_increasing) simp_all
  then have e_le: "(2::nat) ^ e \<le> 1125899906842624" by simp
  \<comment> \<open>the rounded product is below \<open>k + 1\<close>\<close>
  have P10: "10 * P = 9007199254740992 * (9 * n) + 2 * n" unfolding P_def by simp
  from round_to_double_upper [of P]
  have "2 * round_to_double P \<le> 2 * P + 2 ^ e" unfolding e_def .
  with e_le P10 k assms have "round_to_double P < 9007199254740992 * k + 9007199254740992"
    by linarith
  then have "round_to_double P < (k + 1) * 9007199254740992" by simp
  then have upper: "round_to_double P div 2 ^ 53 < k + 1"
    by (simp add: less_mult_imp_div_less)
  \<comment> \<open>and not below \<open>k\<close>\<close>
  have "(2::nat) ^ (53 - e) * 2 ^ e = 2 ^ 53"
    using e50 by (simp add: power_add [symmetric])
  then have scaled: "(k * 2 ^ (53 - e)) * 2 ^ e = k * 9007199254740992"
    by (simp add: mult.assoc)
  from k have kP: "k * 9007199254740992 \<le> P" unfolding P_def by linarith
  have "(k * 2 ^ (53 - e)) * 2 ^ e \<le> P" unfolding scaled by (rule kP)
  then have "(k * 2 ^ (53 - e)) * 2 ^ e \<le> round_to_double P"
    unfolding e_def by (rule round_to_double_lower)
  then have "k * 9007199254740992 \<le> round_to_double P" unfolding scaled .
  then have lower: "k \<le> round_to_double P div 2 ^ 53"
    by (simp add: less_eq_div_iff_mult_less_eq)
  from lower upper index show ?thesis unfolding k_def by simp
qed

lemma round_to_double_104:
  assumes "2 ^ 103 \<le> m" "m < 2 ^ 104"
  shows "round_to_double m =
    (if 2251799813685248 < 2 * (m mod 2251799813685248) \<or>
        (2 * (m mod 2251799813685248) = 2251799813685248 \<and> odd (m div 2251799813685248))
     then (m div 2251799813685248 + 1) * 2251799813685248
     else m div 2251799813685248 * 2251799813685248)"
proof -
  from assms(2) have "bit_length m \<le> 104" by (rule bit_length_le)
  moreover have "\<not> bit_length m \<le> 103"
  proof
    assume "bit_length m \<le> 103"
    then have "(2::nat) ^ bit_length m \<le> 2 ^ 103" by (intro power_increasing) simp_all
    with bit_length_upper [of m] assms(1) show False by simp
  qed
  ultimately have "bit_length m = 104" by simp
  then show ?thesis by (simp add: round_to_double_def Let_def)
qed

lemma split_index_last_exact:
  "split_index 1250999896491805 = 9 * 1250999896491805 div 10"
  "split_index 1250999896491806 = 9 * 1250999896491806 div 10"
  "split_index 1250999896491807 = 9 * 1250999896491807 div 10"
  "split_index 1250999896491808 = 9 * 1250999896491808 div 10"
  "split_index 1250999896491809 = 9 * 1250999896491809 div 10"
  "split_index 1250999896491810 = 9 * 1250999896491810 div 10"
  by (simp_all add: split_index_def round_to_double_exact round_to_double_104)

lemma split_index_first_inexact: "split_index 1250999896491811 = 1125899906842630"
  by (simp add: split_index_def round_to_double_exact round_to_double_104)

lemma split_index_second_inexact:
  "split_index 1250999896491821 = 1125899906842639 \<and> 9 * 1250999896491821 div 10 = (1125899906842638::nat)"
  by (simp add: split_index_def round_to_double_exact round_to_double_104)

lemma split_index_floor:
  assumes "n < 1250999896491811"
  shows "split_index n = 9 * n div 10"
proof (cases "n \<le> 1250999896491804")
  case True
  then show ?thesis by (rule split_index_floor_general)
next
  case False
  with assms have "n = 1250999896491805 \<or> n = 1250999896491806 \<or> n = 1250999896491807 \<or>
      n = 1250999896491808 \<or> n = 1250999896491809 \<or> n = 1250999896491810"
    by linarith
  then show ?thesis using split_index_last_exact by (elim disjE) simp_all
qed

lemma split_index_small: "split_index 4 = 3"
proof -
  have "round_to_double 4 = 4"
    by (simp add: round_to_double_def Let_def bit_length_eval)
  moreover have "round_to_double (4 * 8106479329266893) = 32425917317067572"
    by (simp add: round_to_double_def Let_def bit_length_eval)
  ultimately show ?thesis by (simp add: split_index_def)
qed

lemma split_example:
  "train_data (str ''aabc'') = str ''aab'' \<and> val_data (str ''aabc'') = str ''c''"
proof -
  have "length (str ''aabc'') = 4" by (simp add: str_def)
  then show ?thesis
    unfolding train_data_def val_data_def by (simp add: split_index_small) (simp add: str_def)
qed

text \<open>
  Claim C3, as amended. For every corpus of length \<open>n\<close> the two parts of the split have
  \<open>n\<close> characters together, and for every \<open>n\<close> below 1250999896491811 the training part
  has exactly \<open>floor(9n/10)\<close> characters.
\<close>

theorem split_lengths:
  "length (train_data data) + length (val_data data) = length data \<and>
   (length data < 1250999896491811 \<longrightarrow> length (train_data data) = 9 * length data div 10)"
proof
  show "length (train_data data) + length (val_data data) = length data"
    by (simp add: train_data_def val_data_def)
  show "length data < 1250999896491811 \<longrightarrow> length (train_data data) = 9 * length data div 10"
  proof
    assume "length data < 1250999896491811"
    then have "split_index (length data) = 9 * length data div 10"
      by (rule split_index_floor)
    then show "length (train_data data) = 9 * length data div 10"
      by (simp add: train_data_def)
  qed
qed

theorem split_lengths_witness:
  "length (str ''aabc'') < 1250999896491811 \<and> length (train_data (str ''aabc'')) = 3 \<and>
   length (val_data (str ''aabc'')) = 1"
  using split_lengths [of "str ''aabc''"] by (simp add: str_def)

text \<open>
  The claim as stated, with the exact floor for every length, fails for a corpus of
  1250999896491811 characters, the least such length: the exact product of \<open>n\<close> and the
  double nearest to 0.9 is about 1125899906842629.93, the doubles next to it are
  1125899906842629.75 and 1125899906842630, and it is rounded to the latter, while
  \<open>floor(9n/10)\<close> is 1125899906842629.
\<close>

theorem split_floor_counterexample:
  "\<not> (length (train_data (replicate 1250999896491811 32)) +
        length (val_data (replicate 1250999896491811 32))
        = length (replicate 1250999896491811 (32::nat)) \<and>
      length (train_data (replicate 1250999896491811 32))
        = 9 * length (replicate 1250999896491811 (32::nat)) div 10)"
  by (simp add: train_data_def split_index_first_inexact)

section \<open>The sample encoding test\<close>

lemma set_strip: "set (strip s) \<subseteq> set s"
proof
  fix c assume "c \<in> set (strip s)"
  then have "c \<in> set (dropWhile is_space (rev (dropWhile is_space s)))"
    by (simp add: strip_def rstrip_def lstrip_def)
  then have "c \<in> set (rev (dropWhile is_space s))" by (rule set_dropWhileD)
  then have "c \<in> set (dropWhile is_space s)" by simp
  then show "c \<in> set s" by (rule set_dropWhileD)
qed

lemma set_test_text: "set (test_text data) \<subseteq> set data"
proof -
  have "set (test_text data) \<subseteq> set (take 100 data)"
    unfolding test_text_def by (rule set_strip)
  also have "\<dots> \<subseteq> set data" by (rule set_take_subset)
  finally show ?thesis .
qed

lemma sample_encoding_test_eq:
  "\<exists>test_encoded.
     encode data (test_text data) = Inr test_encoded \<and>
     decode data test_encoded = Inr (test_text data) \<and>
     sample_encoding_test data =
       Inr \<lparr>original = test_text data, encoded = take 20 test_encoded,
            decoded = test_text data, matches = True\<rparr>"
proof -
  from roundtrip_on_vocabulary [OF set_test_text, of data]
  obtain ids where ids: "encode data (test_text data) = Inr ids"
      "decode data ids = Inr (test_text data)"
    by blast
  then have "sample_encoding_test data =
      Inr \<lparr>original = test_text data, encoded = take 20 ids,
           decoded = test_text data, matches = True\<rparr>"
    by (simp add: sample_encoding_test_def)
  with ids show ?thesis by blast
qed

section \<open>The run of the script\<close>

lemma subscript_each_map:
  "subscript_each d ks = Inr vs \<Longrightarrow> vs = map (\<lambda>k. the (d k)) ks"
  by (induction ks arbitrary: vs) (auto split: option.splits sum.splits)

lemma np_array_fits:
  assumes "\<forall>i \<in> set ids. 0 \<le> i \<and> i < int (vocab_size data)"
      and "np = NumPy2 \<longrightarrow> vocab_size data \<le> 65536"
  shows "np_array np ids = Inr (np_array_uint16 ids)"
proof (cases np)
  case NumPy1
  then show ?thesis by (simp add: np_array_def)
next
  case NumPy2
  with assms have "\<forall>i \<in> set ids. 0 \<le> i \<and> i \<le> 65535" by fastforce
  then have "\<not> (\<exists>i \<in> set ids. i < 0 \<or> 65535 < i)" by fastforce
  then show ?thesis by (simp add: np_array_def)
qed

lemma prepare_reaches_test:
  assumes "contents f = Inr data" and "data \<noteq> []"
      and "np = NumPy2 \<longrightarrow> vocab_size data \<le> 65536"
  shows "\<exists>out test_encoded.
     prepare np (Some f) = Inr out \<and>
     encode data (test_text data) = Inr test_encoded \<and>
     decode data test_encoded = Inr (test_text data) \<and>
     summary_test out =
       \<lparr>original = test_text data, encoded = take 20 test_encoded,
        decoded = test_text data, matches = True\<rparr>"
proof -
  have "set (train_data data) \<subseteq> set data"
    unfolding train_data_def by (rule set_take_subset)
  from encode_fits_uint16 [OF this] obtain train_ids where train:
    "encode data (train_data data) = Inr train_ids"
    "\<forall>i \<in> set train_ids. 0 \<le> i \<and> i < int (vocab_size data)"
    by blast
  have "set (val_data data) \<subseteq> set data"
    unfolding val_data_def by (rule set_drop_subset)
  from encode_fits_uint16 [OF this] obtain val_ids where val:
    "encode data (val_data data) = Inr val_ids"
    "\<forall>i \<in> set val_ids. 0 \<le> i \<and> i < int (vocab_size data)"
    by blast
  from sample_encoding_test_eq [of data] obtain test_encoded where test:
    "encode data (test_text data) = Inr test_encoded"
    "decode data test_encoded = Inr (test_text data)"
    "sample_encoding_test data =
       Inr \<lparr>original = test_text data, encoded = take 20 test_encoded,
            decoded = test_text data, matches = True\<rparr>"
    by blast
  from assms(1,2) train(1) val(1) test(3)
    np_array_fits [OF train(2) assms(3)] np_array_fits [OF val(2) assms(3)]
  have "\<exists>out. prepare np (Some f) = Inr out \<and>
     summary_test out =
       \<lparr>original = test_text data, encoded = take 20 test_encoded,
        decoded = test_text data, matches = True\<rparr>"
    by (simp add: prepare_def)
  with test(1,2) show ?thesis by blast
qed

lemma prepare_empty:
  assumes "contents f = Inr []"
  shows "prepare np (Some f) = Inl ZeroDivisionError"
  using assms by (simp add: prepare_def)

lemma prepare_overflow:
  assumes "contents f = Inr data" and "65536 < vocab_size data"
  shows "prepare NumPy2 (Some f) = Inl OverflowError"
proof -
  from assms(2) have nonempty: "data \<noteq> []"
    by (auto simp: vocab_size_def chars_def)
  define c where "c = chars data ! 65536"
  from assms(2) have "stoi data c = Some 65536"
    unfolding c_def using stoi_nth [of 65536 data] by simp
  moreover from assms(2) have "c \<in> set data"
    unfolding c_def using nth_mem [of 65536 "chars data"] by (simp add: vocab_size_def set_chars)
  then have "c \<in> set (train_data data) \<or> c \<in> set (val_data data)"
    using append_take_drop_id [of "split_index (length data)" data, symmetric]
    unfolding train_data_def val_data_def
    by (metis Un_iff set_append)
  moreover have "set (train_data data) \<subseteq> set data"
    unfolding train_data_def by (rule set_take_subset)
  from roundtrip_on_vocabulary [OF this] obtain train_ids where train:
    "encode data (train_data data) = Inr train_ids" by blast
  moreover have "set (val_data data) \<subseteq> set data"
    unfolding val_data_def by (rule set_drop_subset)
  from roundtrip_on_vocabulary [OF this] obtain val_ids where val:
    "encode data (val_data data) = Inr val_ids" by blast
  ultimately have large: "65536 \<in> set train_ids \<or> 65536 \<in> set val_ids"
    using subscript_each_map [of "stoi data" "train_data data" train_ids]
      subscript_each_map [of "stoi data" "val_data data" val_ids]
    unfolding encode_def by force
  have refused: "np_array NumPy2 ids = Inl OverflowError" if "65536 \<in> set ids" for ids
  proof -
    from that have "\<exists>i \<in> set ids. i < 0 \<or> 65535 < i"
      by (intro bexI [of _ 65536]) simp_all
    then show ?thesis by (simp add: np_array_def)
  qed
  have "np_array NumPy2 train_ids = Inl OverflowError \<or>
      np_array NumPy2 train_ids = Inr (np_array_uint16 train_ids)"
    by (simp add: np_array_def)
  with large refused have "np_array NumPy2 train_ids = Inl OverflowError \<or>
      (np_array NumPy2 train_ids = Inr (np_array_uint16 train_ids) \<and>
       np_array NumPy2 val_ids = Inl OverflowError)"
    by blast
  with assms(1) nonempty train val show ?thesis
    by (auto simp: prepare_def)
qed

text \<open>
  Claim C7, as amended. For every corpus that is not empty (and has at most 65536
  distinct characters, where NumPy refuses an id that does not fit 16 bits), the script
  reaches the sample encoding test of the summary; the test text is the first 100
  characters of the corpus with the whitespace at both ends stripped; it is encoded, the
  result is decoded, and the comparison of the test text with the decoded text, which
  the summary reports, succeeds.
\<close>

theorem self_check_matches:
  assumes "contents f = Inr data" and "data \<noteq> []"
      and "np = NumPy2 \<longrightarrow> vocab_size data \<le> 65536"
  shows "\<exists>out test_encoded.
     prepare np (Some f) = Inr out \<and>
     encode data (strip (take 100 data)) = Inr test_encoded \<and>
     decode data test_encoded = Inr (strip (take 100 data)) \<and>
     summary_test out =
       \<lparr>original = strip (take 100 data), encoded = take 20 test_encoded,
        decoded = strip (take 100 data), matches = True\<rparr>"
  using prepare_reaches_test [OF assms] unfolding test_text_def .

theorem self_check_matches_witness:
  "contents (example_file ''aabc'') = Inr (str ''aabc'') \<and> str ''aabc'' \<noteq> [] \<and>
   vocab_size (str ''aabc'') \<le> 65536 \<and>
   (\<exists>out. prepare NumPy2 (Some (example_file ''aabc'')) = Inr out \<and>
      summary_test out =
        \<lparr>original = str ''aabc'', encoded = [0, 0, 1, 2], decoded = str ''aabc'',
         matches = True\<rparr>)"
proof -
  have h1: "contents (example_file ''aabc'') = Inr (str ''aabc'')"
    by (simp add: example_file_def)
  have h2: "str ''aabc'' \<noteq> []" by (simp add: str_def)
  have h3: "vocab_size (str ''aabc'') \<le> 65536" by (simp add: example_vocabulary)
  have stripped: "strip (take 100 (str ''aabc'')) = str ''aabc''"
    by (simp add: strip_def lstrip_def rstrip_def is_space_def str_def)
  from self_check_matches [OF h1 h2, of NumPy2] h3 obtain out test_encoded where
    "prepare NumPy2 (Some (example_file ''aabc'')) = Inr out"
    "encode (str ''aabc'') (strip (take 100 (str ''aabc''))) = Inr test_encoded"
    "summary_test out =
       \<lparr>original = strip (take 100 (str ''aabc'')), encoded = take 20 test_encoded,
        decoded = strip (take 100 (str ''aabc'')), matches = True\<rparr>"
    by blast
  then have "prepare NumPy2 (Some (example_file ''aabc'')) = Inr out \<and>
      summary_test out =
        \<lparr>original = str ''aabc'', encoded = [0, 0, 1, 2], decoded = str ''aabc'',
         matches = True\<rparr>"
    by (auto simp: stripped example_encode)
  with h1 h2 h3 show ?thesis by blast
qed

text \<open>
  The claim as stated holds for no corpus that is empty and takes the test text to be a
  prefix of the corpus. On the empty corpus the script raises \<open>ZeroDivisionError\<close> where
  it reports the split (\<open>len(train_data)/n*100\<close> with \<open>n = 0\<close>), before the summary is
  written: no comparison is reported. For the corpus \<open>" ab"\<close> the first 100 characters
  are \<open>" ab"\<close> and the test text is \<open>"ab"\<close>, which is neither that prefix nor the prefix
  of its own length.
\<close>

theorem self_check_counterexample:
  "prepare NumPy1 (Some (example_file [])) = Inl ZeroDivisionError \<and>
   prepare NumPy2 (Some (example_file [])) = Inl ZeroDivisionError \<and>
   map_sum id summary_test (prepare NumPy2 (Some (example_file '' ab'')))
     = Inr \<lparr>original = str ''ab'', encoded = [1, 2], decoded = str ''ab'', matches = True\<rparr> \<and>
   take 100 (str '' ab'') \<noteq> str ''ab'' \<and>
   take (length (str ''ab'')) (str '' ab'') \<noteq> str ''ab''"
proof -
  have empty: "contents (example_file []) = Inr []"
    by (simp add: example_file_def str_def)
  have h1: "contents (example_file '' ab'') = Inr (str '' ab'')"
    by (simp add: example_file_def)
  have h2: "str '' ab'' \<noteq> []" by (simp add: str_def)
  have h3: "NumPy2 = NumPy2 \<longrightarrow> vocab_size (str '' ab'') \<le> 65536"
    by (simp add: vocab_size_def chars_code str_def)
  have stripped: "test_text (str '' ab'') = str ''ab''"
    by (simp add: test_text_def strip_def lstrip_def rstrip_def is_space_def str_def)
  have encoded: "encode (str '' ab'') (str ''ab'') = Inr [1, 2]"
    by (simp add: encode_def stoi_def chars_code dict_of_def setitem_def str_def)
  from prepare_reaches_test [OF h1 h2 h3] obtain out test_encoded where
    "prepare NumPy2 (Some (example_file '' ab'')) = Inr out"
    "encode (str '' ab'') (test_text (str '' ab'')) = Inr test_encoded"
    "summary_test out =
       \<lparr>original = test_text (str '' ab''), encoded = take 20 test_encoded,
        decoded = test_text (str '' ab''), matches = True\<rparr>"
    by blast
  then have "map_sum id summary_test (prepare NumPy2 (Some (example_file '' ab'')))
     = Inr \<lparr>original = str ''ab'', encoded = [1, 2], decoded = str ''ab'', matches = True\<rparr>"
    by (auto simp: stripped encoded)
  moreover have "take 100 (str '' ab'') \<noteq> str ''ab''"
    "take (length (str ''ab'')) (str '' ab'') \<noteq> str ''ab''"
    by (simp_all add: str_def)
  ultimately show ?thesis
    using prepare_empty [OF empty] by simp
qed

section \<open>Formatting of numbers\<close>

lemma show_grouped_examples:
  "show_grouped 0 = str ''0''" "show_grouped 999 = str ''999''"
  "show_grouped 1000 = str ''1,000''" "show_grouped 1234567 = str ''1,234,567''"
  by (simp_all add: str_def)

lemma show_2d_examples:
  "show_2d 3 = str '' 3''" "show_2d 12 = str ''12''" "show_2d 123 = str ''123''"
  by (simp_all add: show_2d_def show_int_def str_def)

lemma render_separator_example:
  "render (Separator 2 (str ''b_doc'') (str ''p'') 1234)
     = nl @ bar 80 @ nl @ str ''DOCUMENT 2: b_doc'' @ nl @ bar 80 @ nl @
       str ''Source File: p'' @ nl @ str ''Characters: 1,234'' @ nl @ bar 80 @ nl @ nl"
  by (simp add: render_def show_int_def str_def)

section \<open>Discovery and order of the documents\<close>

lemma path_of_examples:
  "path_of (str ''ocr_google_vision_pdf'') (str ''a_doc'')
     = str ''ocr_google_vision_pdf/a_doc/complete_extracted_text.txt''"
  "path_of (str ''base/'') (str ''a_doc'') = str ''base/a_doc/complete_extracted_text.txt''"
  "path_of (str ''.'') (str ''a_doc'') = str ''a_doc/complete_extracted_text.txt''"
  "path_of (str ''/'') (str ''a_doc'') = str ''/a_doc/complete_extracted_text.txt''"
  by (simp_all add: path_of_def path_root_def path_parts_def str_def)

lemma scan_items_eq:
  "scan_items base_dir items = map (document_of base_dir) (filter discovered items)"
  by (induction items) (auto simp: discovered_def document_of_def split: option.splits)

lemma names_scan_items:
  "map fst (scan_items base_dir items) = map item_name (filter discovered items)"
  by (simp add: scan_items_eq document_of_def comp_def)

lemma distinct_scan_items:
  "distinct (map item_name items) \<Longrightarrow> distinct (map fst (scan_items base_dir items))"
  by (simp add: names_scan_items distinct_map_filter)

lemma mset_scan_items:
  "mset items' = mset items \<Longrightarrow> mset (scan_items base_dir items') = mset (scan_items base_dir items)"
  by (simp add: scan_items_eq)

lemma find_permutation:
  assumes "distinct (map item_name items)" "mset items' = mset items"
  shows "find_extracted_text_files base_dir items' = find_extracted_text_files base_dir items"
proof -
  from assms(1) have "distinct (map fst (scan_items base_dir items))"
    by (rule distinct_scan_items)
  then have "inj_on fst (set (scan_items base_dir items))"
    by (simp add: distinct_map)
  with mset_scan_items [OF assms(2), of base_dir, symmetric]
  have "sort_key fst (scan_items base_dir items) = sort_key fst (scan_items base_dir items')"
    by (rule sort_key_eq_sort_key)
  then show ?thesis by (simp add: find_extracted_text_files_def)
qed

lemma sorted_find: "sorted (map fst (find_extracted_text_files base_dir items))"
  by (simp add: find_extracted_text_files_def sorted_sort_key)

lemma distinct_find:
  assumes "distinct (map item_name items)"
  shows "distinct (map fst (find_extracted_text_files base_dir items))"
proof -
  have "mset (map fst (find_extracted_text_files base_dir items))
      = mset (map fst (scan_items base_dir items))"
    by (simp add: find_extracted_text_files_def)
  from mset_eq_imp_distinct_iff [OF this] distinct_scan_items [OF assms]
  show ?thesis by simp
qed

lemma set_find:
  "set (find_extracted_text_files base_dir items)
     = document_of base_dir ` {item \<in> set items. discovered item}"
  by (simp add: find_extracted_text_files_def scan_items_eq)

lemma find_empty_iff:
  "find_extracted_text_files base_dir items = [] \<longleftrightarrow> \<not> (\<exists>item \<in> set items. discovered item)"
proof -
  have "find_extracted_text_files base_dir items = []
      \<longleftrightarrow> set (find_extracted_text_files base_dir items) = {}"
    by simp
  also have "\<dots> \<longleftrightarrow> \<not> (\<exists>item \<in> set items. discovered item)"
    unfolding set_find by auto
  finally show ?thesis .
qed

section \<open>The consolidated file\<close>

lemma process_files_eq:
  "process_files ds (written, total_chars) =
     (written @ concat (map (\<lambda>(i, d). fst (document_section i d)) ds),
      total_chars + sum_list (map (\<lambda>(i, d). snd (document_section i d)) ds))"
  by (induction ds arbitrary: written total_chars) (auto simp: split_beta)

lemma combine_text_files_eq:
  assumes "text_files \<noteq> []"
  shows "\<exists>total_chars.
     combine_text_files now1 now2 text_files =
       Some (Header now1 (length text_files) # body text_files @
               [Footer (length text_files) total_chars now2], total_chars)"
  using assms by (simp add: combine_text_files_def process_files_eq body_def)

lemma header_names_append [simp]:
  "header_names (xs @ ys) = header_names xs @ header_names ys"
  by (simp add: header_names_def)

lemma error_names_append [simp]:
  "error_names (xs @ ys) = error_names xs @ error_names ys"
  by (simp add: error_names_def)

lemma header_names_section:
  "header_names (fst (document_section i d)) = (if readable (snd (snd d)) then [fst d] else [])"
  by (cases d) (simp add: document_section_def header_names_def readable_def Let_def
      split: sum.splits)

lemma error_names_section:
  "error_names (fst (document_section i d)) = (if readable (snd (snd d)) then [] else [fst d])"
  by (cases d) (simp add: document_section_def error_names_def readable_def Let_def
      split: sum.splits)

lemma header_names_sections:
  "header_names (concat (map (\<lambda>(i, d). fst (document_section i d)) (py_enumerate n ds)))
     = map fst (filter (\<lambda>d. readable (snd (snd d))) ds)"
  by (induction ds arbitrary: n) (simp_all add: header_names_section, simp add: header_names_def)

lemma error_names_sections:
  "error_names (concat (map (\<lambda>(i, d). fst (document_section i d)) (py_enumerate n ds)))
     = map fst (filter (\<lambda>d. \<not> readable (snd (snd d))) ds)"
  by (induction ds arbitrary: n) (simp_all add: error_names_section, simp add: error_names_def)


lemma set_filter_find:
  "set (map fst (filter P (find_extracted_text_files base_dir items)))
     = set (map fst (filter P (scan_items base_dir items)))"
  by (simp add: find_extracted_text_files_def)

lemma readable_names_scan:
  "map fst (filter (\<lambda>d. readable (snd (snd d))) (scan_items base_dir items))
     = map item_name
         (filter (\<lambda>item. discovered item \<and> (case artifact item of Some f \<Rightarrow> readable f | None \<Rightarrow> False))
            items)"
  by (induction items) (auto simp: discovered_def split: option.splits)

lemma unreadable_names_scan:
  "map fst (filter (\<lambda>d. \<not> readable (snd (snd d))) (scan_items base_dir items))
     = map item_name
         (filter (\<lambda>item. discovered item \<and> (case artifact item of Some f \<Rightarrow> \<not> readable f | None \<Rightarrow> False))
            items)"
  by (induction items) (auto simp: discovered_def split: option.splits)

lemma set_readable_names:
  "set (map fst (filter (\<lambda>d. readable (snd (snd d))) (find_extracted_text_files base_dir items)))
     = readable_dirs items"
  unfolding set_filter_find readable_names_scan readable_dirs_def ..

lemma set_unreadable_names:
  "set (map fst (filter (\<lambda>d. \<not> readable (snd (snd d))) (find_extracted_text_files base_dir items)))
     = unreadable_dirs items"
  unfolding set_filter_find unreadable_names_scan unreadable_dirs_def ..

lemma filtered_names_sorted:
  assumes "distinct (map item_name items)"
  shows "map fst (filter P (find_extracted_text_files base_dir items))
     = sorted_list_of_set (set (map fst (filter P (find_extracted_text_files base_dir items))))"
proof -
  have "sorted (map fst (filter P (find_extracted_text_files base_dir items)))"
    using sorted_find by (rule sorted_filter)
  moreover have "distinct (map fst (filter P (find_extracted_text_files base_dir items)))"
    using distinct_find [OF assms] by (rule distinct_map_filter)
  ultimately show ?thesis
    by (simp only: sorted_list_of_set.idem_if_sorted_distinct)
qed

lemma headers_of_consolidation:
  assumes "distinct (map item_name items)"
  shows "header_names (body (find_extracted_text_files base_dir items))
           = sorted_list_of_set (readable_dirs items)"
    and "error_names (body (find_extracted_text_files base_dir items))
           = sorted_list_of_set (unreadable_dirs items)"
proof -
  show "header_names (body (find_extracted_text_files base_dir items))
           = sorted_list_of_set (readable_dirs items)"
    unfolding body_def header_names_sections
    by (subst filtered_names_sorted [OF assms]) (simp only: set_readable_names)
  show "error_names (body (find_extracted_text_files base_dir items))
           = sorted_list_of_set (unreadable_dirs items)"
    unfolding body_def error_names_sections
    by (subst filtered_names_sorted [OF assms]) (simp only: set_unreadable_names)
qed

text \<open>
  Claim C5, as amended. For every listing of the base directory (its entries have
  distinct names) in which some subdirectory holds the combined-text artifact, the
  consolidated output has exactly one document header block for each such subdirectory
  whose file is read, and an error line for each one whose file cannot be read; the
  header blocks are in ascending lexicographic order of the directory names, and the
  documents found do not depend on the order of the enumeration.
\<close>

theorem headers_sorted_by_directory:
  assumes "distinct (map item_name items)"
      and "\<exists>item \<in> set items. discovered item"
  shows "\<exists>written total_chars.
     combine_text_files now1 now2 (find_extracted_text_files base_dir items)
       = Some (written, total_chars) \<and>
     header_names written = sorted_list_of_set (readable_dirs items) \<and>
     error_names written = sorted_list_of_set (unreadable_dirs items) \<and>
     (\<forall>items'. mset items' = mset items \<longrightarrow>
        find_extracted_text_files base_dir items' = find_extracted_text_files base_dir items)"
proof -
  let ?files = "find_extracted_text_files base_dir items"
  from assms(2) have "?files \<noteq> []" by (simp add: find_empty_iff)
  from combine_text_files_eq [OF this, of now1 now2] obtain total_chars where
    "combine_text_files now1 now2 ?files =
       Some (Header now1 (length ?files) # body ?files @ [Footer (length ?files) total_chars now2],
             total_chars)" by blast
  moreover have "header_names (Header now1 (length ?files) # body ?files @
      [Footer (length ?files) total_chars now2]) = sorted_list_of_set (readable_dirs items)"
    using headers_of_consolidation(1) [OF assms(1), of base_dir]
    by (simp add: header_names_def)
  moreover have "error_names (Header now1 (length ?files) # body ?files @
      [Footer (length ?files) total_chars now2]) = sorted_list_of_set (unreadable_dirs items)"
    using headers_of_consolidation(2) [OF assms(1), of base_dir]
    by (simp add: error_names_def)
  ultimately show ?thesis
    using find_permutation [OF assms(1)] by blast
qed

lemma example_listing_sorted:
  "sorted_list_of_set (readable_dirs example_listing) = [str ''a_doc'', str ''b_doc'', str ''c_doc'']"
  by (simp add: readable_dirs_def example_listing_def example_dir_def example_file_def
      discovered_def readable_def sorted_list_of_set_sort_remdups str_def)

theorem headers_sorted_by_directory_witness:
  "distinct (map item_name example_listing) \<and> (\<exists>item \<in> set example_listing. discovered item) \<and>
   (\<exists>written total_chars.
      combine_text_files [] [] (find_extracted_text_files (str ''base'') example_listing)
        = Some (written, total_chars) \<and>
      header_names written = [str ''a_doc'', str ''b_doc'', str ''c_doc''])"
proof -
  have h1: "distinct (map item_name example_listing)"
    by (simp add: example_listing_def example_dir_def str_def)
  have h2: "\<exists>item \<in> set example_listing. discovered item"
    by (simp add: example_listing_def example_dir_def discovered_def)
  from headers_sorted_by_directory [OF h1 h2, of "[]" "[]" "str ''base''"] h1 h2
  show ?thesis unfolding example_listing_sorted by blast
qed

text \<open>
  The claim as stated promises a header block for every discovered subdirectory. A
  subdirectory whose file cannot be read is discovered, and gets an error line and no
  header block.
\<close>

theorem unreadable_document_counterexample:
  "map fst (find_extracted_text_files (str ''base'') [example_dir ''a_doc'' unreadable_file])
     = [str ''a_doc''] \<and>
   combine_text_files [] [] (find_extracted_text_files (str ''base'') [example_dir ''a_doc'' unreadable_file])
     = Some ([Header [] 1, Error_line (str ''a_doc'') (str ''invalid start byte''), Footer 1 0 []], 0) \<and>
   header_names [Header [] 1, Error_line (str ''a_doc'') (str ''invalid start byte''), Footer 1 0 []] = []"
  by (simp add: find_extracted_text_files_def example_dir_def unreadable_file_def
      combine_text_files_def document_section_def header_names_def)

section \<open>Empty documents\<close>

lemma length_py_enumerate [simp]: "length (py_enumerate n xs) = length xs"
  by (induction xs arbitrary: n) simp_all

lemma py_enumerate_nth: "i < length xs \<Longrightarrow> py_enumerate n xs ! i = (n + int i, xs ! i)"
proof (induction xs arbitrary: n i)
  case Nil
  then show ?case by simp
next
  case (Cons x xs)
  show ?case
  proof (cases i)
    case 0
    then show ?thesis by simp
  next
    case (Suc j)
    with Cons.prems have "j < length xs" by simp
    from Cons.IH [OF this, of "n + 1"] Suc show ?thesis by simp
  qed
qed

lemma body_split:
  assumes "i < length text_files"
  shows "\<exists>before after.
     body text_files = before @ fst (document_section (int i + 1) (text_files ! i)) @ after"
proof -
  let ?ds = "py_enumerate 1 text_files"
  let ?g = "\<lambda>(i, d). fst (document_section i d)"
  from assms have i: "i < length ?ds" by simp
  then have "?ds = take i ?ds @ ?ds ! i # drop (Suc i) ?ds"
    by (rule id_take_nth_drop)
  then have "body text_files
      = concat (map ?g (take i ?ds @ ?ds ! i # drop (Suc i) ?ds))"
    unfolding body_def by simp
  also have "\<dots> = concat (map ?g (take i ?ds)) @ ?g (?ds ! i) @ concat (map ?g (drop (Suc i) ?ds))"
    by simp
  also have "?g (?ds ! i) = fst (document_section (int i + 1) (text_files ! i))"
    using py_enumerate_nth [OF assms, of 1] by (simp add: add.commute)
  finally show ?thesis by blast
qed

lemma empty_section:
  assumes "contents f = Inr []"
  shows "document_section i (dir_name, file_path, f)
     = ([Separator i dir_name file_path (length placeholder), Content placeholder, Blank],
        length placeholder)"
  using assms
  by (simp add: document_section_def strip_def lstrip_def rstrip_def)

lemma summary_nth:
  assumes "i < length text_files"
  shows "generate_summary_report now text_files output_file total_chars ! (i + 1)
     = summary_entry (int i + 1, text_files ! i)"
  using assms py_enumerate_nth [OF assms, of 1]
  by (simp add: generate_summary_report_def add.commute)

text \<open>
  Claim C6. For every discovered document whose file is empty, the consolidated output
  has the section of that document, with the placeholder \<open>[No text content found]\<close> as
  its content, and the count of documents in the header and the footer of the output and
  in the summary report is the number of all documents found, that one included; the
  summary lists it with 0 characters.
\<close>

theorem empty_file_placeholder:
  assumes "i < length text_files"
      and "text_files ! i = (dir_name, file_path, f)"
      and "contents f = Inr []"
  shows "\<exists>before after total_chars.
     combine_text_files now1 now2 text_files =
       Some (Header now1 (length text_files) # before @
               [Separator (int i + 1) dir_name file_path (length placeholder),
                Content placeholder, Blank] @
               after @ [Footer (length text_files) total_chars now2],
             total_chars) \<and>
     generate_summary_report now3 text_files output_file total_chars ! 0
       = Summary_head now3 output_file (length text_files) total_chars \<and>
     generate_summary_report now3 text_files output_file total_chars ! (i + 1)
       = Summary_doc (int i + 1) dir_name file_path (st_size f) 0"
proof -
  from assms(1) have "text_files \<noteq> []" by auto
  from combine_text_files_eq [OF this, of now1 now2] obtain total_chars where combined:
    "combine_text_files now1 now2 text_files =
       Some (Header now1 (length text_files) # body text_files @
               [Footer (length text_files) total_chars now2], total_chars)" by blast
  from body_split [OF assms(1)] assms(2) empty_section [OF assms(3)]
  obtain before after where
    "body text_files = before @
       [Separator (int i + 1) dir_name file_path (length placeholder), Content placeholder, Blank]
       @ after"
    by auto
  with combined have "combine_text_files now1 now2 text_files =
       Some (Header now1 (length text_files) # before @
               [Separator (int i + 1) dir_name file_path (length placeholder),
                Content placeholder, Blank] @
               after @ [Footer (length text_files) total_chars now2],
             total_chars)" by simp
  moreover have "generate_summary_report now3 text_files output_file total_chars ! 0
       = Summary_head now3 output_file (length text_files) total_chars"
    by (simp add: generate_summary_report_def)
  moreover have "generate_summary_report now3 text_files output_file total_chars ! (i + 1)
       = Summary_doc (int i + 1) dir_name file_path (st_size f) 0"
    using summary_nth [OF assms(1)] assms(2,3) by (simp add: summary_entry_def)
  ultimately show ?thesis by blast
qed

theorem empty_file_placeholder_witness:
  "1 < length example_documents \<and>
   example_documents ! 1 = (str ''b_doc'', str ''b_doc/complete_extracted_text.txt'', example_file []) \<and>
   contents (example_file []) = Inr [] \<and>
   (\<exists>before after total_chars.
      combine_text_files [] [] example_documents =
        Some (Header [] 2 # before @
                [Separator 2 (str ''b_doc'') (str ''b_doc/complete_extracted_text.txt'') 23,
                 Content (str ''[No text content found]''), Blank] @
                after @ [Footer 2 total_chars []],
              total_chars) \<and>
      generate_summary_report [] example_documents [] total_chars ! 2
        = Summary_doc 2 (str ''b_doc'') (str ''b_doc/complete_extracted_text.txt'') 0 0)"
proof -
  have h1: "1 < length example_documents"
    by (simp add: example_documents_def)
  have h2: "example_documents ! 1
      = (str ''b_doc'', str ''b_doc/complete_extracted_text.txt'', example_file [])"
    by (simp add: example_documents_def)
  have h3: "contents (example_file []) = Inr []"
    by (simp add: example_file_def str_def)
  have n: "length example_documents = 2" "length placeholder = 23"
    "st_size (example_file []) = 0" "placeholder = str ''[No text content found]''"
    by (simp_all add: example_documents_def placeholder_def example_file_def str_def)
  from empty_file_placeholder [OF h1 h2 h3, of "[]" "[]" "[]" "[]"]
  obtain before after total_chars where
    "combine_text_files [] [] example_documents =
       Some (Header [] (length example_documents) # before @
               [Separator (int 1 + 1) (str ''b_doc'') (str ''b_doc/complete_extracted_text.txt'')
                  (length placeholder),
                Content placeholder, Blank] @
               after @ [Footer (length example_documents) total_chars []],
             total_chars)"
    "generate_summary_report [] example_documents [] total_chars ! (1 + 1)
       = Summary_doc (int 1 + 1) (str ''b_doc'') (str ''b_doc/complete_extracted_text.txt'')
           (st_size (example_file [])) 0"
    by blast
  then have "combine_text_files [] [] example_documents =
        Some (Header [] 2 # before @
                [Separator 2 (str ''b_doc'') (str ''b_doc/complete_extracted_text.txt'') 23,
                 Content (str ''[No text content found]''), Blank] @
                after @ [Footer 2 total_chars []],
              total_chars) \<and>
      generate_summary_report [] example_documents [] total_chars ! 2
        = Summary_doc 2 (str ''b_doc'') (str ''b_doc/complete_extracted_text.txt'') 0 0"
    by (simp add: n(1-3) numeral_2_eq_2 flip: n(4))
  with h1 h2 h3 show ?thesis by blast
qed

section \<open>The two character counts of a document\<close>

lemma length_dropWhile_eq: "length (dropWhile P xs) = length xs \<Longrightarrow> dropWhile P xs = xs"
proof (induction xs)
  case Nil
  show ?case by simp
next
  case (Cons x xs)
  show ?case
  proof (cases "P x")
    case True
    have "length (dropWhile P xs) \<le> length xs" by (rule length_dropWhile_le)
    with Cons.prems True show ?thesis by simp
  next
    case False
    then show ?thesis by simp
  qed
qed

lemma strip_shorter:
  assumes "strip s \<noteq> s"
  shows "length (strip s) < length s"
proof (rule ccontr)
  assume "\<not> length (strip s) < length s"
  moreover have l: "length (lstrip s) \<le> length s"
    unfolding lstrip_def by (rule length_dropWhile_le)
  moreover have r: "length (strip s) \<le> length (lstrip s)"
    using length_dropWhile_le [of is_space "rev (lstrip s)"] by (simp add: strip_def rstrip_def)
  ultimately have eq: "length (lstrip s) = length s" "length (strip s) = length (lstrip s)"
    by simp_all
  from eq(1) have "lstrip s = s"
    unfolding lstrip_def by (rule length_dropWhile_eq)
  moreover from eq(2) have "dropWhile is_space (rev (lstrip s)) = rev (lstrip s)"
    by (intro length_dropWhile_eq) (simp add: strip_def rstrip_def)
  ultimately have "strip s = s" by (simp add: strip_def rstrip_def)
  with assms show False by simp
qed

lemma counts_of_document:
  assumes "contents f = Inr raw" and "strip raw \<noteq> []"
  shows "fst (document_section i (dir_name, file_path, f))
           = [Separator i dir_name file_path (length (strip raw)), Content (strip raw), Blank]"
    and "summary_entry (i, dir_name, file_path, f)
           = Summary_doc i dir_name file_path (st_size f) (length raw)"
  using assms by (simp_all add: document_section_def summary_entry_def Let_def)

lemma whitespace_counts_disagree:
  assumes "contents f = Inr raw" and "strip raw \<noteq> []" and "strip raw \<noteq> raw"
  shows "\<exists>n m.
     fst (document_section i (dir_name, file_path, f))
       = [Separator i dir_name file_path n, Content (strip raw), Blank] \<and>
     summary_entry (i, dir_name, file_path, f) = Summary_doc i dir_name file_path (st_size f) m \<and>
     n < m"
  using counts_of_document [OF assms(1,2)] strip_shorter [OF assms(3)] by blast

text \<open>
  Claim C10. There is a document file whose content has whitespace at an end for which
  the count of characters in the header block of the consolidated output, taken after
  stripping, is strictly less than the count of characters in the summary report, taken
  on the content as read. The file with the three characters \<open>" a "\<close> is one: the header
  block says 1 and the summary says 3.
\<close>

theorem header_count_below_summary_count:
  "\<exists>f raw n m written total_chars.
     contents f = Inr raw \<and> strip raw \<noteq> raw \<and>
     combine_text_files now1 now2 [(dir_name, file_path, f)] = Some (written, total_chars) \<and>
     Separator 1 dir_name file_path n \<in> set written \<and>
     Summary_doc 1 dir_name file_path (st_size f) m
       \<in> set (generate_summary_report now3 [(dir_name, file_path, f)] output_file total_chars) \<and>
     n < m"
proof (intro exI conjI)
  let ?f = "example_file '' a ''"
  show "contents ?f = Inr (str '' a '')"
    by (simp add: example_file_def)
  have stripped: "strip (str '' a '') = str ''a''"
    by (simp add: strip_def lstrip_def rstrip_def is_space_def str_def)
  then show "strip (str '' a '') \<noteq> str '' a ''"
    by (simp add: str_def)
  show "combine_text_files now1 now2 [(dir_name, file_path, ?f)]
      = Some ([Header now1 1, Separator 1 dir_name file_path 1, Content (str ''a''), Blank,
               Footer 1 1 now2], 1)"
    by (simp add: combine_text_files_def document_section_def example_file_def stripped)
       (simp add: str_def)
  show "Separator 1 dir_name file_path 1
      \<in> set [Header now1 1, Separator 1 dir_name file_path 1, Content (str ''a''), Blank,
               Footer 1 1 now2]"
    by simp
  show "Summary_doc 1 dir_name file_path (st_size ?f) 3
      \<in> set (generate_summary_report now3 [(dir_name, file_path, ?f)] output_file 1)"
    by (simp add: generate_summary_report_def summary_entry_def example_file_def str_def)
  show "(1::nat) < 3" by simp
qed

section \<open>Errors of a page\<close>

lemma process_pages_encoded:
  assumes "list_all (encodes to_bytes) pages"
  shows "\<exists>outs.
     process_pages cl detailed to_bytes (py_enumerate n pages) = (outs, None) \<and>
     length outs = length pages \<and>
     (\<forall>k bytes. k < length pages \<and> to_bytes (pages ! k) = Inr bytes \<longrightarrow>
        outs ! k = process_page cl detailed (n + int k) bytes)"
  using assms
proof (induction pages arbitrary: n)
  case Nil
  show ?case by simp
next
  case (Cons page pages)
  from Cons.prems obtain bytes where bytes: "to_bytes page = Inr bytes"
    by (auto simp: encodes_def split: sum.splits)
  from Cons.prems have "list_all (encodes to_bytes) pages" by simp
  from Cons.IH [OF this, of "n + 1"] obtain outs where outs:
    "process_pages cl detailed to_bytes (py_enumerate (n + 1) pages) = (outs, None)"
    "length outs = length pages"
    "\<And>k b. k < length pages \<Longrightarrow> to_bytes (pages ! k) = Inr b \<Longrightarrow>
        outs ! k = process_page cl detailed (n + 1 + int k) b"
    by blast
  let ?outs = "process_page cl detailed n bytes # outs"
  have "process_pages cl detailed to_bytes (py_enumerate n (page # pages)) = (?outs, None)"
    using bytes outs(1) by simp
  moreover have "length ?outs = length (page # pages)"
    using outs(2) by simp
  moreover have "?outs ! k = process_page cl detailed (n + int k) b"
    if "k < length (page # pages)" "to_bytes ((page # pages) ! k) = Inr b" for k b
  proof (cases k)
    case 0
    with that bytes show ?thesis by simp
  next
    case (Suc j)
    with that have "j < length pages" "to_bytes (pages ! j) = Inr b" by simp_all
    from outs(3) [OF this] Suc show ?thesis by (simp add: add.assoc)
  qed
  ultimately show ?case by blast
qed

lemma page_number_process_page [simp]:
  "page_number (process_page cl detailed i bytes) = i"
  by (simp add: process_page_def split_beta)

lemma detailed_failure_page:
  assumes "detailed_failure c bytes"
  shows "page_file (process_page (Some c) True i bytes) = str ''Error processing page''"
proof -
  from assms have "get_detailed_text_info (Some c) bytes = None"
    by (auto simp: detailed_failure_def get_detailed_text_info_def split: sum.splits)
  then show ?thesis
    by (simp add: process_page_def page_result_def or_no_text_def str_def)
qed

lemma empty_annotation_page:
  assumes "document_text_detection c bytes
      = Inr \<lparr>document_error_message = [],
             full_text_annotation = Some \<lparr>full_text_text = [], full_text_pages = []\<rparr>\<rparr>"
  shows "page_file (process_page (Some c) True i bytes) = str ''Error processing page''"
  using assms
  by (simp add: process_page_def page_result_def get_detailed_text_info_def or_no_text_def str_def)

lemma standard_error_page:
  assumes "standard_error_text c bytes = Some msg"
  shows "page_file (process_page (Some c) False i bytes) = msg"
proof -
  from assms have "extract_text_from_image (Some c) bytes = msg" and "msg \<noteq> []"
    by (auto simp: standard_error_text_def extract_text_from_image_def str_def
        split: sum.splits if_splits)
  then show ?thesis
    by (simp add: process_page_def page_result_def or_no_text_def Let_def)
qed

lemma process_pdf_encoded:
  assumes "pages \<noteq> []" and "list_all (encodes to_bytes) pages"
  shows "\<exists>outs combined words.
     process_pdf (Some c) (Inr pages) to_bytes detailed
       = Returned_True outs combined words (length pages) \<and>
     length outs = length pages \<and>
     (\<forall>k bytes. k < length pages \<and> to_bytes (pages ! k) = Inr bytes \<longrightarrow>
        outs ! k = process_page (Some c) detailed (int k + 1) bytes)"
proof -
  from process_pages_encoded [OF assms(2), of "Some c" detailed 1] obtain outs where outs:
    "process_pages (Some c) detailed to_bytes (py_enumerate 1 pages) = (outs, None)"
    "length outs = length pages"
    "\<forall>k bytes. k < length pages \<and> to_bytes (pages ! k) = Inr bytes \<longrightarrow>
        outs ! k = process_page (Some c) detailed (1 + int k) bytes"
    by blast
  from assms(1) outs(1,2) have "process_pdf (Some c) (Inr pages) to_bytes detailed
      = Returned_True outs (concat (map page_text outs)) (sum_list (map word_count outs))
          (length pages)"
    by (simp add: process_pdf_def)
  with outs(2,3) show ?thesis by (auto simp: add.commute)
qed

text \<open>
  Claim C8, as amended. For a document all of whose page images are encoded for
  submission, every page is processed and gets its output, whatever errors the service
  gives for other pages; an error of the service for a page, whether raised or reported
  in the response, is recorded as the text of that page: as \<open>Error processing page\<close> in
  the detailed mode, and in the standard mode as \<open>Error processing image:\<close> followed by
  the text of the exception, or \<open>API Error:\<close> followed by the reported message.
\<close>

theorem page_errors_recorded:
  assumes "pages \<noteq> []" and "list_all (encodes to_bytes) pages"
  shows "\<exists>outs combined words.
     process_pdf (Some c) (Inr pages) to_bytes detailed
       = Returned_True outs combined words (length pages) \<and>
     length outs = length pages \<and>
     (\<forall>k bytes. k < length pages \<and> to_bytes (pages ! k) = Inr bytes \<longrightarrow>
        page_number (outs ! k) = int k + 1 \<and>
        (detailed \<and> detailed_failure c bytes \<longrightarrow>
           page_file (outs ! k) = str ''Error processing page'') \<and>
        (\<forall>msg. \<not> detailed \<and> standard_error_text c bytes = Some msg \<longrightarrow>
           page_file (outs ! k) = msg))"
proof -
  from process_pdf_encoded [OF assms, of c detailed] obtain outs combined words where outs:
    "process_pdf (Some c) (Inr pages) to_bytes detailed
       = Returned_True outs combined words (length pages)"
    "length outs = length pages"
    "\<And>k bytes. k < length pages \<Longrightarrow> to_bytes (pages ! k) = Inr bytes \<Longrightarrow>
        outs ! k = process_page (Some c) detailed (int k + 1) bytes"
    by blast
  have "page_number (outs ! k) = int k + 1 \<and>
        (detailed \<and> detailed_failure c bytes \<longrightarrow>
           page_file (outs ! k) = str ''Error processing page'') \<and>
        (\<forall>msg. \<not> detailed \<and> standard_error_text c bytes = Some msg \<longrightarrow>
           page_file (outs ! k) = msg)"
    if "k < length pages" "to_bytes (pages ! k) = Inr bytes" for k bytes
    using outs(3) [OF that] detailed_failure_page [of c bytes "int k + 1"]
      standard_error_page [of c bytes _ "int k + 1"]
    by auto
  with outs(1,2) show ?thesis by blast
qed

lemma flaky_pages:
  "page_file (process_page (Some flaky_client) True i [0]) = str ''hello world''"
  "page_file (process_page (Some flaky_client) True i [1]) = str ''Error processing page''"
  "page_file (process_page (Some flaky_client) False i [1]) = str ''Error processing image: boom''"
  by (simp_all add: process_page_def page_result_def get_detailed_text_info_def
      extract_text_from_image_def flaky_client_def or_no_text_def Let_def str_def)

theorem page_errors_recorded_witness:
  "[[0], [1], [2]] \<noteq> ([] :: image_bytes list) \<and>
   (\<exists>outs combined words.
      process_pdf (Some flaky_client) (Inr [[0], [1], [2]]) plain_bytes True
        = Returned_True outs combined words 3 \<and>
      length outs = 3 \<and>
      page_number (outs ! 1) = 2 \<and>
      page_file (outs ! 1) = str ''Error processing page'')"
proof -
  have h1: "[[0], [1], [2]] \<noteq> ([] :: image_bytes list)" by simp
  have h2: "list_all (encodes plain_bytes) [[0], [1], [2]]"
    by (simp add: encodes_def plain_bytes_def)
  have f: "detailed_failure flaky_client [1]"
    by (simp add: detailed_failure_def flaky_client_def)
  from page_errors_recorded [OF h1 h2, of flaky_client True] obtain outs combined words where
    outs: "process_pdf (Some flaky_client) (Inr [[0], [1], [2]]) plain_bytes True
       = Returned_True outs combined words (length [[0::nat], [1], [2]])"
      "length outs = length [[0::nat], [1], [2]]"
    and each: "\<And>k bytes. k < length [[0::nat], [1], [2]] \<Longrightarrow>
        plain_bytes ([[0], [1], [2]] ! k) = Inr bytes \<Longrightarrow>
        page_number (outs ! k) = int k + 1 \<and>
        (True \<and> detailed_failure flaky_client bytes \<longrightarrow>
           page_file (outs ! k) = str ''Error processing page'')"
    by blast
  from each [of 1 "[1]"] f
  have "page_file (outs ! 1) = str ''Error processing page''" "page_number (outs ! 1) = 2"
    by (simp_all add: plain_bytes_def)
  with outs h1 show ?thesis by auto
qed

text \<open>
  The claim as stated records every error as \<open>Error processing page\<close>. In the standard
  mode a call that raises is recorded as \<open>Error processing image:\<close> with the text of the
  exception.
\<close>

theorem standard_mode_counterexample:
  "process_pdf (Some failing_client) (Inr [[0]]) plain_bytes False
     = Returned_True
         [\<lparr>page_number = 1, page_file = str ''Error processing image: boom'',
           page_text = page_header 1 @ str ''Error processing image: boom'' @ nl @ nl,
           word_count = 4\<rparr>]
         (page_header 1 @ str ''Error processing image: boom'' @ nl @ nl) 4 1 \<and>
   str ''Error processing image: boom'' \<noteq> str ''Error processing page''"
proof -
  have extracted: "extract_text_from_image (Some failing_client) [0] = str ''Error processing image: boom''"
    by (simp add: extract_text_from_image_def failing_client_def str_def)
  have words: "length (py_split (str ''Error processing image: boom'')) = 4"
    by (simp add: py_split_def str_def is_space_def)
  have nonempty: "str ''Error processing image: boom'' \<noteq> []"
    by (simp add: str_def)
  have "page_result (Some failing_client) False [0] = (str ''Error processing image: boom'', 4)"
    by (simp add: page_result_def extracted words nonempty Let_def)
  then have "process_page (Some failing_client) False 1 [0]
      = \<lparr>page_number = 1, page_file = str ''Error processing image: boom'',
          page_text = page_header 1 @ str ''Error processing image: boom'' @ nl @ nl,
          word_count = 4\<rparr>"
    by (simp add: process_page_def or_no_text_def nonempty)
  moreover have "str ''Error processing image: boom'' \<noteq> str ''Error processing page''"
    by (simp add: str_def)
  ultimately show ?thesis
    by (simp add: process_pdf_def plain_bytes_def)
qed

end
